theory Spec2Isabelle
  imports Complex_Main "HOL-Library.Multiset"
begin

section \<open>Strings\<close>

text \<open>
  The source works on JavaScript strings. They are modelled as \<open>string\<close> (a list of
  8-bit characters), read as ASCII text: \<open>trim\<close> strips the ASCII members of the
  ECMAScript white space and line terminator classes (TAB, LF, VT, FF, CR, SPACE) from both
  ends, and the case mappings act on the letters A-Z and a-z and leave every other
  character alone.

  On a string of ASCII characters (\<open>isAscii\<close>) these are the results of
  \<open>String.prototype.trim\<close>, \<open>toLowerCase\<close> and \<open>toUpperCase\<close>. Beyond ASCII
  they are not: JavaScript also strips U+00A0, U+FEFF, U+2028, U+2029 and the Unicode
  space separators, and maps the case of every Unicode letter. A statement that depends
  on what \<open>trim\<close> or \<open>toLowerCase\<close> return on the strings of its input is therefore
  made for ASCII strings only.
\<close>

definition isWhiteSpace :: "char \<Rightarrow> bool" where
  "isWhiteSpace c = (c \<in> set [CHR 0x09, CHR 0x0A, CHR 0x0B, CHR 0x0C, CHR 0x0D, CHR 0x20])"

definition trim :: "string \<Rightarrow> string" where
  "trim s = rev (dropWhile isWhiteSpace (rev (dropWhile isWhiteSpace s)))"

definition lowerChar :: "char \<Rightarrow> char" where
  "lowerChar c =
     (let n = (of_char c :: nat) in if 65 \<le> n \<and> n \<le> 90 then char_of (n + 32) else c)"

definition upperChar :: "char \<Rightarrow> char" where
  "upperChar c =
     (let n = (of_char c :: nat) in if 97 \<le> n \<and> n \<le> 122 then char_of (n - 32) else c)"

definition toLowerCase :: "string \<Rightarrow> string" where
  "toLowerCase s = map lowerChar s"

definition toUpperCase :: "string \<Rightarrow> string" where
  "toUpperCase s = map upperChar s"

definition isAscii :: "string \<Rightarrow> bool" where
  "isAscii s = list_all (\<lambda>c. (of_char c :: nat) < 128) s"

text \<open>\<open>s.charAt(0)\<close> is the empty string when \<open>s\<close> is empty; \<open>s.slice(1)\<close> drops one character.\<close>

definition charAt0 :: "string \<Rightarrow> string" where
  "charAt0 s = take 1 s"

definition slice1 :: "string \<Rightarrow> string" where
  "slice1 s = drop 1 s"

section \<open>Data model (types.ts)\<close>

text \<open>
  \<open>metadata\<close> is \<open>any\<close> in the source; the builder stores either the empty object
  (the default argument of \<open>addNode\<close>) or the four fields of a paper.
\<close>

datatype metadata =
    EmptyObject
  | PaperMetadata string string string string  \<comment> \<open>title, date, summary, id\<close>

text \<open>
  An optional coordinate of a node: absent (\<open>undefined\<close>), \<open>null\<close>, or a number.
  The handlers below only copy coordinates, no arithmetic is done on them.

  \<open>val\<close> is a JavaScript number. The builder stores the integers 10, 5, 6 and 3 and
  adds 1 to them, and \<open>getRadius\<close> takes a minimum: an \<open>int\<close>.
\<close>

datatype coord = Undefined | Null | Num real

record GraphNode =
  node_id :: string
  node_label :: string
  node_group :: string
  node_val :: int
  node_x :: coord
  node_y :: coord
  node_fx :: coord
  node_fy :: coord
  node_metadata :: metadata

record GraphEdge =
  edge_source :: string
  edge_target :: string
  edge_relation :: string

record KnowledgeGraphData =
  kg_nodes :: "GraphNode list"
  kg_edges :: "GraphEdge list"

text \<open>
  The fields of a \<open>ResearchDocument\<close> that the builder reads. The three arrays are
  declared non-optional in types.ts; \<open>None\<close> stands for a record that arrives
  without the property (\<open>undefined\<close>), on which \<open>.forEach\<close> and \<open>.slice\<close> throw a
  TypeError. \<open>doc_institute = None\<close> stands for \<open>null\<close> or \<open>undefined\<close>.
  The elements of the arrays are strings, as declared.
\<close>

record ResearchDocument =
  doc_id :: string
  doc_title :: string
  doc_publicationDate :: string
  doc_summary :: string
  doc_authors :: "string list option"
  doc_institute :: "string option"
  doc_keyConcepts :: "string list option"
  doc_methods :: "string list option"

datatype error = TypeError

section \<open>graphService.buildGlobalGraph\<close>

text \<open>
  \<open>nodes\<close> is a JavaScript \<open>Map\<close>, which iterates in insertion order: an association
  list, new keys appended at the end. \<open>edges\<close> is an array.
\<close>

type_synonym nodeMap = "(string \<times> GraphNode) list"

definition has :: "nodeMap \<Rightarrow> string \<Rightarrow> bool" where
  "has nodes k = (k \<in> set (map fst nodes))"

text \<open>\<open>const node = nodes.get(id)!; node.val += 1\<close>: the entry of the key, changed in place.\<close>

fun incrementVal :: "string \<Rightarrow> nodeMap \<Rightarrow> nodeMap" where
  "incrementVal k [] = []"
| "incrementVal k ((k', n) # rest) =
     (if k' = k then (k', n\<lparr>node_val := node_val n + 1\<rparr>) # rest
      else (k', n) # incrementVal k rest)"

definition addNode ::
  "string \<Rightarrow> string \<Rightarrow> string \<Rightarrow> int \<Rightarrow> metadata \<Rightarrow> nodeMap \<Rightarrow> nodeMap" where
  "addNode ident label grp val metadata nodes =
     (if \<not> has nodes ident then
        nodes @ [(ident, \<lparr>node_id = ident, node_label = label, node_group = grp,
                          node_val = val, node_x = Undefined, node_y = Undefined,
                          node_fx = Undefined, node_fy = Undefined,
                          node_metadata = metadata\<rparr>)]
      else incrementVal ident nodes)"

text \<open>The test of \<open>edges.some\<close>: the same endpoints in either direction, same relation.\<close>

definition sameLink :: "string \<Rightarrow> string \<Rightarrow> string \<Rightarrow> GraphEdge \<Rightarrow> bool" where
  "sameLink source target relation e =
     ((edge_source e = source \<and> edge_target e = target \<and> edge_relation e = relation) \<or>
      (edge_source e = target \<and> edge_target e = source \<and> edge_relation e = relation))"

definition edgeExists :: "GraphEdge list \<Rightarrow> string \<Rightarrow> string \<Rightarrow> string \<Rightarrow> bool" where
  "edgeExists edges source target relation = list_ex (sameLink source target relation) edges"

definition addEdge :: "string \<Rightarrow> string \<Rightarrow> string \<Rightarrow> GraphEdge list \<Rightarrow> GraphEdge list" where
  "addEdge source target relation edges =
     (if source = target then edges
      else if \<not> edgeExists edges source target relation then
        edges @ [\<lparr>edge_source = source, edge_target = target, edge_relation = relation\<rparr>]
      else edges)"

text \<open>The two captured variables of the closures, threaded through the loops.\<close>

type_synonym buildState = "nodeMap \<times> GraphEdge list"

definition authorStep :: "string \<Rightarrow> string \<Rightarrow> buildState \<Rightarrow> buildState" where
  "authorStep docId author st =
     (let authorId = ''author:'' @ trim author
      in (addNode authorId (trim author) ''AUTHOR'' 5 EmptyObject (fst st),
          addEdge docId authorId ''written_by'' (snd st)))"

definition affiliationStep :: "string \<Rightarrow> string \<Rightarrow> buildState \<Rightarrow> buildState" where
  "affiliationStep instId author st =
     (let authorId = ''author:'' @ trim author
      in (fst st, addEdge authorId instId ''affiliated_with'' (snd st)))"

definition instituteStep :: "string \<Rightarrow> string list \<Rightarrow> string \<Rightarrow> buildState \<Rightarrow> buildState" where
  "instituteStep docId authors institute st =
     (let instId = ''inst:'' @ trim institute;
          st1 = (addNode instId (trim institute) ''INSTITUTE'' 6 EmptyObject (fst st),
                 addEdge docId instId ''published_at'' (snd st))
      in fold (affiliationStep instId) authors st1)"

definition conceptStep :: "string \<Rightarrow> string \<Rightarrow> buildState \<Rightarrow> buildState" where
  "conceptStep docId concept st =
     (let conceptId = ''concept:'' @ trim (toLowerCase concept);
          label = toUpperCase (charAt0 concept) @ slice1 concept
      in (addNode conceptId label ''CONCEPT'' 3 EmptyObject (fst st),
          addEdge docId conceptId ''discusses'' (snd st)))"

definition methodStep :: "string \<Rightarrow> string \<Rightarrow> buildState \<Rightarrow> buildState" where
  "methodStep docId method st =
     (let methodId = ''method:'' @ trim (toLowerCase method);
          label = toUpperCase (charAt0 method) @ slice1 method
      in (addNode methodId label ''METHOD'' 3 EmptyObject (fst st),
          addEdge docId methodId ''uses_method'' (snd st)))"

text \<open>
  The body of \<open>documents.forEach\<close>. In \<open>if (doc.institute)\<close> the values \<open>null\<close>,
  \<open>undefined\<close> and the empty string are falsy. A missing array throws where the source first
  touches it: \<open>doc.authors.forEach\<close>, \<open>doc.keyConcepts.slice\<close>, \<open>doc.methods.slice\<close>.
  The exception leaves \<open>buildGlobalGraph\<close>, so the state built so far is lost.
\<close>

definition processDoc :: "ResearchDocument \<Rightarrow> buildState \<Rightarrow> error + buildState" where
  "processDoc doc st =
     (let docId = ''paper:'' @ doc_id doc;
          st1 = (addNode docId (doc_title doc) ''PAPER'' 10
                   (PaperMetadata (doc_title doc) (doc_publicationDate doc)
                      (doc_summary doc) (doc_id doc)) (fst st),
                 snd st)
      in (case doc_authors doc of
            None \<Rightarrow> Inl TypeError
          | Some authors \<Rightarrow>
              (let st2 = fold (authorStep docId) authors st1;
                   st3 = (case doc_institute doc of
                            None \<Rightarrow> st2
                          | Some institute \<Rightarrow>
                              (if institute \<noteq> []
                               then instituteStep docId authors institute st2
                               else st2))
               in (case doc_keyConcepts doc of
                     None \<Rightarrow> Inl TypeError
                   | Some keyConcepts \<Rightarrow>
                       (let st4 = fold (conceptStep docId) (take 5 keyConcepts) st3
                        in (case doc_methods doc of
                              None \<Rightarrow> Inl TypeError
                            | Some methods \<Rightarrow>
                                Inr (fold (methodStep docId) (take 3 methods) st4)))))))"

fun forEachDoc :: "ResearchDocument list \<Rightarrow> buildState \<Rightarrow> error + buildState" where
  "forEachDoc [] st = Inr st"
| "forEachDoc (doc # docs) st =
     (case processDoc doc st of Inl e \<Rightarrow> Inl e | Inr st' \<Rightarrow> forEachDoc docs st')"

definition buildGlobalGraph :: "ResearchDocument list \<Rightarrow> error + KnowledgeGraphData" where
  "buildGlobalGraph documents =
     (case forEachDoc documents ([], []) of
        Inl e \<Rightarrow> Inl e
      | Inr st \<Rightarrow> Inr \<lparr>kg_nodes = map snd (fst st), kg_edges = snd st\<rparr>)"

section \<open>The KnowledgeGraph component\<close>

subsection \<open>getRadius\<close>

definition getRadius :: "string \<Rightarrow> int \<Rightarrow> int" where
  "getRadius grp val =
     (if grp = ''PAPER'' then 12 + min val 5
      else if grp = ''AUTHOR'' then 8 + min val 3
      else if grp = ''INSTITUTE'' then 10
      else 5 + min val 3)"

text \<open>The radius handed to \<open>d3.forceCollide\<close>: \<open>d => getRadius(d.group, d.val) + 5\<close>.\<close>

definition collideRadius :: "GraphNode \<Rightarrow> int" where
  "collideRadius d = getRadius (node_group d) (node_val d) + 5"

text \<open>The \<open>r\<close> attribute of a node's circle: \<open>d => getRadius(d.group, d.val)\<close>.\<close>

definition circleRadius :: "GraphNode \<Rightarrow> int" where
  "circleRadius d = getRadius (node_group d) (node_val d)"

subsection \<open>handleHighlight\<close>

text \<open>
  Once \<open>d3.forceLink\<close> has run, the \<open>source\<close> and \<open>target\<close> of an edge are the node
  objects themselves; \<open>handleHighlight\<close> reads their ids.
\<close>

record LinkedEdge =
  link_source :: GraphNode
  link_target :: GraphNode
  link_relation :: string

text \<open>
  What \<open>handleHighlight\<close> writes: the \<open>opacity\<close> attribute of every circle and of
  every label (one per element of \<open>data.nodes\<close>, in order) and the \<open>stroke-opacity\<close>
  attribute of every line (one per element of \<open>data.edges\<close>).
\<close>

record Opacities =
  circle_opacity :: "real list"
  label_opacity :: "real list"
  link_stroke_opacity :: "real list"

definition linkedNodeIds :: "string \<Rightarrow> LinkedEdge list \<Rightarrow> string set" where
  "linkedNodeIds targetNodeId edges =
     fold (\<lambda>e linked.
             let s = node_id (link_source e);
                 t = node_id (link_target e);
                 linked1 = (if s = targetNodeId then insert t linked else linked)
             in (if t = targetNodeId then insert s linked1 else linked1))
          edges {targetNodeId}"

text \<open>The branch under \<open>// Reset\<close>.\<close>

definition resetOpacities :: "GraphNode list \<Rightarrow> LinkedEdge list \<Rightarrow> Opacities" where
  "resetOpacities nodes edges =
     \<lparr>circle_opacity = map (\<lambda>d. 1) nodes,
      label_opacity = map (\<lambda>d. 1) nodes,
      link_stroke_opacity = map (\<lambda>d. 0.6) edges\<rparr>"

text \<open>\<open>if (!targetNodeId)\<close> holds for \<open>null\<close> and for the empty string.\<close>

definition handleHighlight ::
  "string option \<Rightarrow> GraphNode list \<Rightarrow> LinkedEdge list \<Rightarrow> Opacities" where
  "handleHighlight targetNodeId nodes edges =
     (case targetNodeId of
        None \<Rightarrow> resetOpacities nodes edges
      | Some target \<Rightarrow>
          if target = [] then resetOpacities nodes edges
          else
            let linked = linkedNodeIds target edges
            in \<lparr>circle_opacity = map (\<lambda>d. if node_id d \<in> linked then 1 else 0.1) nodes,
                label_opacity = map (\<lambda>d. if node_id d \<in> linked then 1 else 0.1) nodes,
                link_stroke_opacity =
                  map (\<lambda>d. if node_id (link_source d) \<in> linked \<and>
                               node_id (link_target d) \<in> linked
                            then 0.8 else 0.05) edges\<rparr>)"

subsection \<open>drag\<close>

text \<open>
  The handlers see the d3 drag event (\<open>active\<close>, the number of other active drags, and
  the pointer position \<open>x\<close>, \<open>y\<close>), the simulation and the dragged node
  \<open>event.subject\<close>. Of the simulation only what the handlers set is kept: the alpha
  target and whether \<open>restart\<close> was called.
\<close>

record DragEvent =
  ev_active :: nat
  ev_x :: real
  ev_y :: real

record Simulation =
  sim_alphaTarget :: real
  sim_restarted :: bool

definition dragstarted :: "DragEvent \<Rightarrow> Simulation \<times> GraphNode \<Rightarrow> Simulation \<times> GraphNode" where
  "dragstarted event st =
     (let simulation = fst st; subject = snd st
      in ((if ev_active event = 0
           then simulation\<lparr>sim_alphaTarget := 0.3, sim_restarted := True\<rparr>
           else simulation),
          subject\<lparr>node_fx := node_x subject, node_fy := node_y subject\<rparr>))"

definition dragged :: "DragEvent \<Rightarrow> Simulation \<times> GraphNode \<Rightarrow> Simulation \<times> GraphNode" where
  "dragged event st =
     (let simulation = fst st; subject = snd st
      in (simulation, subject\<lparr>node_fx := Num (ev_x event), node_fy := Num (ev_y event)\<rparr>))"

definition dragended :: "DragEvent \<Rightarrow> Simulation \<times> GraphNode \<Rightarrow> Simulation \<times> GraphNode" where
  "dragended event st =
     (let simulation = fst st; subject = snd st
      in ((if ev_active event = 0 then simulation\<lparr>sim_alphaTarget := 0\<rparr> else simulation),
          subject\<lparr>node_fx := Null, node_fy := Null\<rparr>))"

section \<open>The operations of a build\<close>

text \<open>
  \<open>addNode\<close> reads and writes the node map only and \<open>addEdge\<close> the edge array only.
  A build is therefore determined by two lists: the \<open>addNode\<close> calls of all documents,
  in order, and their \<open>addEdge\<close> calls, in order. A node operation is the argument tuple
  of one \<open>addNode\<close> call, an edge operation that of one \<open>addEdge\<close> call.
\<close>

type_synonym nodeOp = "string \<times> string \<times> string \<times> int \<times> metadata"

type_synonym edgeOp = "string \<times> string \<times> string"

fun applyNodeOp :: "nodeOp \<Rightarrow> nodeMap \<Rightarrow> nodeMap" where
  "applyNodeOp (i, l, g, v, m) ns = addNode i l g v m ns"

fun applyEdgeOp :: "edgeOp \<Rightarrow> GraphEdge list \<Rightarrow> GraphEdge list" where
  "applyEdgeOp (s, t, r) es = addEdge s t r es"

text \<open>
  What a document feeds to the four loops: its authors, its institute if truthy (a list of
  at most one element), its first 5 key concepts and its first 3 methods. A missing array
  counts as empty here; \<open>wellFormed\<close> below says that none is missing.
\<close>

definition authorsOf :: "ResearchDocument \<Rightarrow> string list" where
  "authorsOf doc = (case doc_authors doc of None \<Rightarrow> [] | Some authors \<Rightarrow> authors)"

definition instituteOf :: "ResearchDocument \<Rightarrow> string list" where
  "instituteOf doc =
     (case doc_institute doc of None \<Rightarrow> [] | Some i \<Rightarrow> (if i \<noteq> [] then [i] else []))"

definition conceptsOf :: "ResearchDocument \<Rightarrow> string list" where
  "conceptsOf doc = (case doc_keyConcepts doc of None \<Rightarrow> [] | Some cs \<Rightarrow> take 5 cs)"

definition methodsOf :: "ResearchDocument \<Rightarrow> string list" where
  "methodsOf doc = (case doc_methods doc of None \<Rightarrow> [] | Some ms \<Rightarrow> take 3 ms)"

text \<open>The node ids computed by the builder.\<close>

definition paperId :: "ResearchDocument \<Rightarrow> string" where
  "paperId doc = ''paper:'' @ doc_id doc"

definition authorId :: "string \<Rightarrow> string" where
  "authorId a = ''author:'' @ trim a"

definition instId :: "string \<Rightarrow> string" where
  "instId i = ''inst:'' @ trim i"

definition conceptId :: "string \<Rightarrow> string" where
  "conceptId c = ''concept:'' @ trim (toLowerCase c)"

definition methodId :: "string \<Rightarrow> string" where
  "methodId m = ''method:'' @ trim (toLowerCase m)"

text \<open>The operations of one document, in the order of the source.\<close>

definition paperOp :: "ResearchDocument \<Rightarrow> nodeOp" where
  "paperOp doc = (paperId doc, doc_title doc, ''PAPER'', 10,
                  PaperMetadata (doc_title doc) (doc_publicationDate doc) (doc_summary doc) (doc_id doc))"

definition authorOp :: "string \<Rightarrow> nodeOp" where
  "authorOp a = (authorId a, trim a, ''AUTHOR'', 5, EmptyObject)"

definition instOp :: "string \<Rightarrow> nodeOp" where
  "instOp i = (instId i, trim i, ''INSTITUTE'', 6, EmptyObject)"

definition conceptOp :: "string \<Rightarrow> nodeOp" where
  "conceptOp c = (conceptId c, toUpperCase (charAt0 c) @ slice1 c, ''CONCEPT'', 3, EmptyObject)"

definition methodOp :: "string \<Rightarrow> nodeOp" where
  "methodOp m = (methodId m, toUpperCase (charAt0 m) @ slice1 m, ''METHOD'', 3, EmptyObject)"

definition docNodeOps :: "ResearchDocument \<Rightarrow> nodeOp list" where
  "docNodeOps doc =
     paperOp doc # map authorOp (authorsOf doc) @ map instOp (instituteOf doc) @
     map conceptOp (conceptsOf doc) @ map methodOp (methodsOf doc)"

definition docEdgeOps :: "ResearchDocument \<Rightarrow> edgeOp list" where
  "docEdgeOps doc =
     map (\<lambda>a. (paperId doc, authorId a, ''written_by'')) (authorsOf doc) @
     concat (map (\<lambda>i. (paperId doc, instId i, ''published_at'') #
                       map (\<lambda>a. (authorId a, instId i, ''affiliated_with'')) (authorsOf doc))
                 (instituteOf doc)) @
     map (\<lambda>c. (paperId doc, conceptId c, ''discusses'')) (conceptsOf doc) @
     map (\<lambda>m. (paperId doc, methodId m, ''uses_method'')) (methodsOf doc)"

definition wellFormed :: "ResearchDocument \<Rightarrow> bool" where
  "wellFormed doc =
     (doc_authors doc \<noteq> None \<and> doc_keyConcepts doc \<noteq> None \<and> doc_methods doc \<noteq> None)"

text \<open>The edge that an edge operation appends when it is not rejected.\<close>

definition mkEdge :: "edgeOp \<Rightarrow> GraphEdge" where
  "mkEdge op = (case op of (s, t, r) \<Rightarrow> \<lparr>edge_source = s, edge_target = t, edge_relation = r\<rparr>)"

text \<open>
  Every edge of the builder leaves a paper (whose id starts with \<open>p\<close>) for a node of
  another kind, or leaves an author (\<open>a\<close>) for an institute (\<open>i\<close>). The reverse of
  such an edge is never attempted.
\<close>

definition orientedEdge :: "GraphEdge \<Rightarrow> bool" where
  "orientedEdge e =
     ((take 1 (edge_source e) = ''p'' \<and> take 1 (edge_target e) \<noteq> ''p'') \<or>
      (take 1 (edge_source e) = ''a'' \<and> take 1 (edge_target e) = ''i''))"

text \<open>The invariant of the edge array: no self-loop, no second edge on the same link.\<close>

definition edgesOK :: "GraphEdge list \<Rightarrow> bool" where
  "edgesOK es =
     ((\<forall>e \<in> set es. edge_source e \<noteq> edge_target e) \<and>
      (\<forall>a b r. length (filter (sameLink a b r) es) \<le> 1))"

text \<open>
  The node that a node operation stores when its id is new, and a node with its weight
  raised by \<open>c\<close>.
\<close>

definition mkNode :: "nodeOp \<Rightarrow> GraphNode" where
  "mkNode op = (case op of (i, l, g, v, m) \<Rightarrow>
      \<lparr>node_id = i, node_label = l, node_group = g, node_val = v, node_x = Undefined,
       node_y = Undefined, node_fx = Undefined, node_fy = Undefined, node_metadata = m\<rparr>)"

definition bump :: "int \<Rightarrow> GraphNode \<Rightarrow> GraphNode" where
  "bump c n = n\<lparr>node_val := node_val n + c\<rparr>"

text \<open>The operations of a list of documents, and the graph they produce.\<close>

definition allNodeOps :: "ResearchDocument list \<Rightarrow> nodeOp list" where
  "allNodeOps docs = concat (map docNodeOps docs)"

definition allEdgeOps :: "ResearchDocument list \<Rightarrow> edgeOp list" where
  "allEdgeOps docs = concat (map docEdgeOps docs)"

definition tracedGraph :: "ResearchDocument list \<Rightarrow> KnowledgeGraphData" where
  "tracedGraph docs =
     \<lparr>kg_nodes = map snd (fold applyNodeOp (allNodeOps docs) []),
      kg_edges = fold applyEdgeOp (allEdgeOps docs) []\<rparr>"

text \<open>
  The first character of an id tells the kind of its node, and with it the group and the
  base weight that every \<open>addNode\<close> call on this id passes.
\<close>

definition idGroup :: "string \<Rightarrow> string" where
  "idGroup i =
     (if take 1 i = ''p'' then ''PAPER''
      else if take 1 i = ''a'' then ''AUTHOR''
      else if take 1 i = ''i'' then ''INSTITUTE''
      else if take 1 i = ''c'' then ''CONCEPT''
      else ''METHOD'')"

definition idBase :: "string \<Rightarrow> int" where
  "idBase i =
     (if take 1 i = ''p'' then 10
      else if take 1 i = ''a'' then 5
      else if take 1 i = ''i'' then 6
      else 3)"

text \<open>The ids of a graph's nodes, each with its group and weight.\<close>

definition nodeWeights :: "KnowledgeGraphData \<Rightarrow> (string \<times> string \<times> int) set" where
  "nodeWeights g = set (map (\<lambda>n. (node_id n, node_group n, node_val n)) (kg_nodes g))"

section \<open>Example inputs\<close>

text \<open>The graph of the highlight example: edges A-B, A-C and D-E.\<close>

definition hlNode :: "string \<Rightarrow> GraphNode" where
  "hlNode i = \<lparr>node_id = i, node_label = i, node_group = ''CONCEPT'',
               node_val = 3, node_x = Undefined, node_y = Undefined,
               node_fx = Undefined, node_fy = Undefined, node_metadata = EmptyObject\<rparr>"

definition hlEdge :: "string \<Rightarrow> string \<Rightarrow> LinkedEdge" where
  "hlEdge a b = \<lparr>link_source = hlNode a, link_target = hlNode b, link_relation = ''r''\<rparr>"

definition hlNodes :: "GraphNode list" where
  "hlNodes = [hlNode ''A'', hlNode ''B'', hlNode ''C'', hlNode ''D'', hlNode ''E'']"

definition hlEdges :: "LinkedEdge list" where
  "hlEdges = [hlEdge ''A'' ''B'', hlEdge ''A'' ''C'', hlEdge ''D'' ''E'']"

text \<open>
  The documents of the end-to-end scenario, with any id, title, date and summary; two of
  them, and the graph built from the two.
\<close>

definition scenarioDoc :: "string \<Rightarrow> string \<Rightarrow> string \<Rightarrow> string \<Rightarrow> ResearchDocument" where
  "scenarioDoc i t p s =
     \<lparr>doc_id = i, doc_title = t, doc_publicationDate = p, doc_summary = s,
      doc_authors = Some [''K. Chen''], doc_institute = Some ''MIT'',
      doc_keyConcepts = Some [''GNN''], doc_methods = Some []\<rparr>"

definition doc1 :: ResearchDocument where
  "doc1 = scenarioDoc ''Doc1'' ''Title Doc1'' ''2024-01-01'' ''Summary''"

definition doc2 :: ResearchDocument where
  "doc2 = scenarioDoc ''Doc2'' ''Title Doc2'' ''2024-01-01'' ''Summary''"

definition exGraph :: KnowledgeGraphData where
  "exGraph =
     \<lparr>kg_nodes =
        [mkNode (''paper:Doc1'', ''Title Doc1'', ''PAPER'', 10,
                 PaperMetadata ''Title Doc1'' ''2024-01-01'' ''Summary'' ''Doc1''),
         mkNode (''author:K. Chen'', ''K. Chen'', ''AUTHOR'', 6, EmptyObject),
         mkNode (''inst:MIT'', ''MIT'', ''INSTITUTE'', 7, EmptyObject),
         mkNode (''concept:gnn'', ''GNN'', ''CONCEPT'', 4, EmptyObject),
         mkNode (''paper:Doc2'', ''Title Doc2'', ''PAPER'', 10,
                 PaperMetadata ''Title Doc2'' ''2024-01-01'' ''Summary'' ''Doc2'')],
      kg_edges =
        [mkEdge (''paper:Doc1'', ''author:K. Chen'', ''written_by''),
         mkEdge (''paper:Doc1'', ''inst:MIT'', ''published_at''),
         mkEdge (''author:K. Chen'', ''inst:MIT'', ''affiliated_with''),
         mkEdge (''paper:Doc1'', ''concept:gnn'', ''discusses''),
         mkEdge (''paper:Doc2'', ''author:K. Chen'', ''written_by''),
         mkEdge (''paper:Doc2'', ''inst:MIT'', ''published_at''),
         mkEdge (''paper:Doc2'', ''concept:gnn'', ''discusses'')]\<rparr>"

text \<open>
  A document with empty arrays and no institute, and the same document without its
  \<open>authors\<close> array.
\<close>

definition sparseDoc :: ResearchDocument where
  "sparseDoc =
     \<lparr>doc_id = ''Doc3'', doc_title = ''Title Doc3'', doc_publicationDate = ''2024-01-01'',
      doc_summary = ''Summary'', doc_authors = Some [], doc_institute = None,
      doc_keyConcepts = Some [], doc_methods = Some []\<rparr>"

definition malformedDoc :: ResearchDocument where
  "malformedDoc = sparseDoc\<lparr>doc_authors := None\<rparr>"

text \<open>
  The second scenario document with its key concept in another case, and the first
  scenario document with its author listed twice.
\<close>

definition otherCaseDoc :: ResearchDocument where
  "otherCaseDoc = doc2\<lparr>doc_keyConcepts := Some [''Gnn'']\<rparr>"

definition dupAuthorDoc :: ResearchDocument where
  "dupAuthorDoc = doc1\<lparr>doc_authors := Some [''K. Chen'', ''K. Chen '']\<rparr>"

text \<open>Three \<open>addNode\<close> calls, two of them on the id A.\<close>

definition mergeOps :: "nodeOp list" where
  "mergeOps = [(''A'', ''second'', ''PAPER'', 10, EmptyObject),
               (''B'', ''other'', ''AUTHOR'', 5, EmptyObject),
               (''A'', ''third'', ''METHOD'', 3, EmptyObject)]"

text \<open>
  A document with 8 key concepts and 5 methods, all different; and one with 8 different
  key concept strings of which the first two differ in case only.
\<close>

definition eightConceptsDoc :: ResearchDocument where
  "eightConceptsDoc =
     sparseDoc\<lparr>doc_keyConcepts := Some [''c1'', ''c2'', ''c3'', ''c4'', ''c5'', ''c6'', ''c7'', ''c8''],
               doc_methods := Some [''m1'', ''m2'', ''m3'', ''m4'', ''m5'']\<rparr>"

definition repeatedConceptDoc :: ResearchDocument where
  "repeatedConceptDoc =
     sparseDoc\<lparr>doc_keyConcepts := Some [''GNN'', ''gnn'', ''ML'', ''AI'', ''NLP'', ''X'', ''Y'', ''Z'']\<rparr>"

section \<open>Properties of the KnowledgeGraph component\<close>

subsection \<open>Highlighting\<close>

lemma linkedNodeIds_fold:
  "fold (\<lambda>e linked.
           let s = node_id (link_source e);
               t = node_id (link_target e);
               linked1 = (if s = target then insert t linked else linked)
           in (if t = target then insert s linked1 else linked1)) es S
   = S \<union> {node_id (link_target e) | e. e \<in> set es \<and> node_id (link_source e) = target}
       \<union> {node_id (link_source e) | e. e \<in> set es \<and> node_id (link_target e) = target}"
  by (induction es arbitrary: S) (auto simp: Let_def)

lemma linkedNodeIds_iff:
  "i \<in> linkedNodeIds target es \<longleftrightarrow>
     i = target \<or>
     (\<exists>e \<in> set es. (node_id (link_source e) = target \<and> node_id (link_target e) = i) \<or>
                     (node_id (link_target e) = target \<and> node_id (link_source e) = i))"
  unfolding linkedNodeIds_def linkedNodeIds_fold by auto

text \<open>
  C7 (amended). For a non-empty selected node id, \<open>linkedNodeIds\<close> is the 1-hop
  neighbourhood: the selected id together with every id at the other end of an edge that
  touches it. Circles and labels of neighbourhood nodes get opacity 1 and all others 0.1;
  an edge with both ends in the neighbourhood gets stroke opacity 0.8 and every other edge
  0.05. Clearing the selection sets every circle and label to opacity 1 and every edge to
  the default stroke opacity 0.6.
\<close>

theorem handleHighlight_neighbourhood:
  "target \<noteq> [] \<Longrightarrow>
     (\<forall>i. i \<in> linkedNodeIds target edges \<longleftrightarrow>
            i = target \<or>
            (\<exists>e \<in> set edges.
               (node_id (link_source e) = target \<and> node_id (link_target e) = i) \<or>
               (node_id (link_target e) = target \<and> node_id (link_source e) = i))) \<and>
     circle_opacity (handleHighlight (Some target) nodes edges) =
       map (\<lambda>d. if node_id d \<in> linkedNodeIds target edges then 1 else 0.1) nodes \<and>
     label_opacity (handleHighlight (Some target) nodes edges) =
       map (\<lambda>d. if node_id d \<in> linkedNodeIds target edges then 1 else 0.1) nodes \<and>
     link_stroke_opacity (handleHighlight (Some target) nodes edges) =
       map (\<lambda>e. if node_id (link_source e) \<in> linkedNodeIds target edges \<and>
                    node_id (link_target e) \<in> linkedNodeIds target edges
                 then 0.8 else 0.05) edges \<and>
     handleHighlight None nodes edges =
       \<lparr>circle_opacity = replicate (length nodes) 1,
        label_opacity = replicate (length nodes) 1,
        link_stroke_opacity = replicate (length edges) 0.6\<rparr>"
  using linkedNodeIds_iff
  by (simp add: handleHighlight_def resetOpacities_def Let_def map_replicate_const)

text \<open>The example of the specification: selecting A in the graph A-B, A-C, D-E.\<close>

theorem handleHighlight_neighbourhood_witness:
  "''A'' \<noteq> [] \<and>
   circle_opacity (handleHighlight (Some ''A'') hlNodes hlEdges) = [1, 1, 1, 0.1, 0.1] \<and>
   label_opacity (handleHighlight (Some ''A'') hlNodes hlEdges) = [1, 1, 1, 0.1, 0.1] \<and>
   link_stroke_opacity (handleHighlight (Some ''A'') hlNodes hlEdges) = [0.8, 0.8, 0.05] \<and>
   handleHighlight None hlNodes hlEdges =
     \<lparr>circle_opacity = [1, 1, 1, 1, 1], label_opacity = [1, 1, 1, 1, 1],
      link_stroke_opacity = [0.6, 0.6, 0.6]\<rparr>"
proof -
  have h: "''A'' \<noteq> []" by simp
  have ids: "linkedNodeIds ''A'' hlEdges = {''A'', ''B'', ''C''}"
    by (auto simp: linkedNodeIds_def hlEdges_def hlEdge_def hlNode_def Let_def)
  show ?thesis
    using handleHighlight_neighbourhood [OF h, of hlEdges hlNodes]
    by (simp add: ids hlNodes_def hlEdges_def hlEdge_def hlNode_def)
qed

text \<open>
  After clearing the selection the edges are at stroke opacity 0.6, not at full opacity,
  and selecting a node whose id is the empty string takes the reset branch: nothing is
  dimmed.
\<close>

theorem handleHighlight_counterexample:
  "link_stroke_opacity (handleHighlight None hlNodes hlEdges) = [0.6, 0.6, 0.6] \<and>
   link_stroke_opacity (handleHighlight None hlNodes hlEdges) \<noteq> [1, 1, 1] \<and>
   circle_opacity (handleHighlight (Some '''')
      [hlNode '''', hlNode ''B'', hlNode ''C''] [hlEdge '''' ''B'']) = [1, 1, 1] \<and>
   link_stroke_opacity (handleHighlight (Some '''')
      [hlNode '''', hlNode ''B'', hlNode ''C''] [hlEdge '''' ''B'']) = [0.6]"
  by (simp add: handleHighlight_def resetOpacities_def hlNodes_def hlEdges_def)

subsection \<open>Node radius\<close>

lemma getRadius_PAPER: "getRadius ''PAPER'' v = 12 + min v 5"
  by (simp add: getRadius_def)

lemma getRadius_AUTHOR: "getRadius ''AUTHOR'' v = 8 + min v 3"
  by (simp add: getRadius_def)

lemma getRadius_INSTITUTE: "getRadius ''INSTITUTE'' v = 10"
  by (simp add: getRadius_def)

lemma getRadius_default:
  "g \<noteq> ''PAPER'' \<Longrightarrow> g \<noteq> ''AUTHOR'' \<Longrightarrow> g \<noteq> ''INSTITUTE'' \<Longrightarrow> getRadius g v = 5 + min v 3"
  by (simp add: getRadius_def)

lemma getRadius_cases:
  obtains "g = ''PAPER''" | "g = ''AUTHOR''" | "g = ''INSTITUTE''"
  | "g \<noteq> ''PAPER''" "g \<noteq> ''AUTHOR''" "g \<noteq> ''INSTITUTE''"
  by blast

lemma getRadius_mono: "v \<le> w \<Longrightarrow> getRadius g v \<le> getRadius g w"
  by (cases g rule: getRadius_cases)
     (simp_all add: getRadius_PAPER getRadius_AUTHOR getRadius_INSTITUTE getRadius_default)

lemma getRadius_bounds: "0 \<le> v \<Longrightarrow> getRadius g 0 \<le> getRadius g v \<and> getRadius g v \<le> getRadius g 0 + 5"
  by (cases g rule: getRadius_cases)
     (simp_all add: getRadius_PAPER getRadius_AUTHOR getRadius_INSTITUTE getRadius_default)

lemma getRadius_PAPER_largest:
  "0 \<le> v \<Longrightarrow> 0 \<le> w \<Longrightarrow> g \<noteq> ''PAPER'' \<Longrightarrow> getRadius g w < getRadius ''PAPER'' v"
  by (cases g rule: getRadius_cases)
     (simp_all add: getRadius_PAPER getRadius_AUTHOR getRadius_INSTITUTE getRadius_default)

lemma getRadius_default_smallest:
  "0 \<le> v \<Longrightarrow> 0 \<le> w \<Longrightarrow> g \<in> {''PAPER'', ''AUTHOR'', ''INSTITUTE''} \<Longrightarrow>
     getRadius ''CONCEPT'' v \<le> getRadius g w \<and> getRadius ''METHOD'' v \<le> getRadius g w"
  by (auto simp add: getRadius_PAPER getRadius_AUTHOR getRadius_INSTITUTE getRadius_default)

text \<open>
  C8 (amended). For non-negative weights: a PAPER node has radius 12 plus the weight capped
  at 5, an AUTHOR node 8 plus the weight capped at 3, every group other than PAPER, AUTHOR
  and INSTITUTE (so CONCEPT and METHOD) 5 plus the weight capped at 3, and an INSTITUTE
  node the fixed radius 10, whatever its weight. The circle is drawn with this radius and
  the collision radius is 5 more. PAPER nodes are strictly larger than all others,
  CONCEPT and METHOD nodes are no larger than PAPER, AUTHOR and INSTITUTE nodes, the radius
  never decreases as the weight grows, and it exceeds the radius at weight 0 by at most 5.
\<close>

theorem getRadius_policy:
  "0 \<le> v \<Longrightarrow> 0 \<le> w \<Longrightarrow>
     getRadius ''PAPER'' v = 12 + min v 5 \<and>
     getRadius ''AUTHOR'' v = 8 + min v 3 \<and>
     getRadius ''INSTITUTE'' v = 10 \<and>
     (g \<notin> {''PAPER'', ''AUTHOR'', ''INSTITUTE''} \<longrightarrow> getRadius g v = 5 + min v 3) \<and>
     circleRadius d = getRadius (node_group d) (node_val d) \<and>
     collideRadius d = circleRadius d + 5 \<and>
     (g \<noteq> ''PAPER'' \<longrightarrow> getRadius g w < getRadius ''PAPER'' v) \<and>
     (g \<in> {''PAPER'', ''AUTHOR'', ''INSTITUTE''} \<longrightarrow>
        getRadius ''CONCEPT'' v \<le> getRadius g w \<and> getRadius ''METHOD'' v \<le> getRadius g w) \<and>
     (v \<le> w \<longrightarrow> getRadius g v \<le> getRadius g w) \<and>
     getRadius g 0 \<le> getRadius g v \<and> getRadius g v \<le> getRadius g 0 + 5"
proof -
  assume v: "0 \<le> v" and w: "0 \<le> w"
  have c4: "g \<notin> {''PAPER'', ''AUTHOR'', ''INSTITUTE''} \<longrightarrow> getRadius g v = 5 + min v 3"
    using getRadius_default [of g v] by blast
  have c5: "circleRadius d = getRadius (node_group d) (node_val d)"
    by (simp add: circleRadius_def)
  have c6: "collideRadius d = circleRadius d + 5"
    by (simp add: circleRadius_def collideRadius_def)
  have c7: "g \<noteq> ''PAPER'' \<longrightarrow> getRadius g w < getRadius ''PAPER'' v"
    using getRadius_PAPER_largest [OF v w] by blast
  have c8: "g \<in> {''PAPER'', ''AUTHOR'', ''INSTITUTE''} \<longrightarrow>
        getRadius ''CONCEPT'' v \<le> getRadius g w \<and> getRadius ''METHOD'' v \<le> getRadius g w"
    using getRadius_default_smallest [OF v w] by blast
  have c9: "v \<le> w \<longrightarrow> getRadius g v \<le> getRadius g w"
    using getRadius_mono by blast
  show ?thesis
    using getRadius_PAPER [of v] getRadius_AUTHOR [of v] getRadius_INSTITUTE [of v]
      c4 c5 c6 c7 c8 c9 getRadius_bounds [OF v, of g]
    by blast
qed

text \<open>Weights 10 and 4, the group AUTHOR and the node A of the highlight example.\<close>

theorem getRadius_policy_witness:
  "(0::int) \<le> 10 \<and> (0::int) \<le> 4 \<and>
   getRadius ''PAPER'' 10 = 17 \<and> getRadius ''AUTHOR'' 10 = 11 \<and>
   getRadius ''INSTITUTE'' 10 = 10 \<and> getRadius ''CONCEPT'' 10 = 8 \<and>
   collideRadius (hlNode ''A'') = circleRadius (hlNode ''A'') + 5 \<and>
   getRadius ''AUTHOR'' 4 < getRadius ''PAPER'' 10 \<and>
   getRadius ''CONCEPT'' 10 \<le> getRadius ''AUTHOR'' 4"
proof -
  have h1: "(0::int) \<le> 10" and h2: "(0::int) \<le> 4" by simp_all
  show ?thesis
    using getRadius_policy [OF h1 h2, of "''AUTHOR''" "hlNode ''A''"]
    by (simp add: getRadius_def)
qed

text \<open>
  An INSTITUTE node does not grow with its weight: at weight 1000 its radius is what it is
  at weight 0.
\<close>

theorem getRadius_counterexample:
  "\<not> (getRadius ''INSTITUTE'' 0 < getRadius ''INSTITUTE'' 1000) \<and>
   getRadius ''INSTITUTE'' 0 = 10 \<and> getRadius ''INSTITUTE'' 1000 = 10"
  by (simp add: getRadius_def)

subsection \<open>Dragging\<close>

text \<open>
  C9. After drag start the pin \<open>fx, fy\<close> of the dragged node is its current position
  \<open>x, y\<close>; after a drag move it is the pointer position; after release it is \<open>null\<close>.
  In all three cases putting the old pin back gives the old node: no other field of the
  node has changed.
\<close>

theorem drag_writes_only_pin:
  "(let subject' = snd (dragstarted event (simulation, subject))
    in node_fx subject' = node_x subject \<and> node_fy subject' = node_y subject \<and>
       subject'\<lparr>node_fx := node_fx subject, node_fy := node_fy subject\<rparr> = subject) \<and>
   (let subject' = snd (dragged event (simulation, subject))
    in node_fx subject' = Num (ev_x event) \<and> node_fy subject' = Num (ev_y event) \<and>
       subject'\<lparr>node_fx := node_fx subject, node_fy := node_fy subject\<rparr> = subject) \<and>
   (let subject' = snd (dragended event (simulation, subject))
    in node_fx subject' = Null \<and> node_fy subject' = Null \<and>
       subject'\<lparr>node_fx := node_fx subject, node_fy := node_fy subject\<rparr> = subject)"
  by (simp add: dragstarted_def dragged_def dragended_def Let_def)

section \<open>Properties of the graph builder\<close>

subsection \<open>A build is its two lists of operations\<close>

lemma fold_authorStep:
  "fold (authorStep d) as st =
     (fold applyNodeOp (map authorOp as) (fst st),
      fold applyEdgeOp (map (\<lambda>a. (d, authorId a, ''written_by'')) as) (snd st))"
  by (induction as arbitrary: st) (simp_all add: authorStep_def authorOp_def authorId_def Let_def)

lemma fold_affiliationStep:
  "fold (affiliationStep i) as st =
     (fst st, fold applyEdgeOp (map (\<lambda>a. (authorId a, i, ''affiliated_with'')) as) (snd st))"
  by (induction as arbitrary: st) (simp_all add: affiliationStep_def authorId_def Let_def)

lemma fold_conceptStep:
  "fold (conceptStep d) cs st =
     (fold applyNodeOp (map conceptOp cs) (fst st),
      fold applyEdgeOp (map (\<lambda>c. (d, conceptId c, ''discusses'')) cs) (snd st))"
  by (induction cs arbitrary: st) (simp_all add: conceptStep_def conceptOp_def conceptId_def Let_def)

lemma fold_methodStep:
  "fold (methodStep d) ms st =
     (fold applyNodeOp (map methodOp ms) (fst st),
      fold applyEdgeOp (map (\<lambda>m. (d, methodId m, ''uses_method'')) ms) (snd st))"
  by (induction ms arbitrary: st) (simp_all add: methodStep_def methodOp_def methodId_def Let_def)

lemma instituteStep_trace:
  "instituteStep d as i st =
     (applyNodeOp (instOp i) (fst st),
      fold applyEdgeOp ((d, instId i, ''published_at'') #
                        map (\<lambda>a. (authorId a, instId i, ''affiliated_with'')) as) (snd st))"
  by (simp add: instituteStep_def fold_affiliationStep instOp_def instId_def Let_def)

lemma processDoc_malformed: "\<not> wellFormed doc \<Longrightarrow> processDoc doc st = Inl TypeError"
  by (auto simp: wellFormed_def processDoc_def Let_def split: option.splits)

lemma processDoc_trace:
  assumes "wellFormed doc"
  shows "processDoc doc st =
           Inr (fold applyNodeOp (docNodeOps doc) (fst st),
                fold applyEdgeOp (docEdgeOps doc) (snd st))"
proof -
  obtain as cs ms where f: "doc_authors doc = Some as" "doc_keyConcepts doc = Some cs"
      "doc_methods doc = Some ms"
    using assms by (auto simp: wellFormed_def)
  show ?thesis
  proof (cases "doc_institute doc")
    case None
    then show ?thesis
      using f
      by (simp add: processDoc_def Let_def fold_authorStep fold_conceptStep fold_methodStep
            docNodeOps_def docEdgeOps_def authorsOf_def instituteOf_def conceptsOf_def
            methodsOf_def paperOp_def paperId_def)
  next
    case (Some i)
    then show ?thesis
      using f
      by (simp add: processDoc_def Let_def fold_authorStep fold_conceptStep fold_methodStep
            instituteStep_trace
            docNodeOps_def docEdgeOps_def authorsOf_def instituteOf_def conceptsOf_def
            methodsOf_def paperOp_def paperId_def)
  qed
qed

lemma forEachDoc_malformed:
  "\<not> list_all wellFormed docs \<Longrightarrow> forEachDoc docs st = Inl TypeError"
proof (induction docs arbitrary: st)
  case Nil
  then show ?case by simp
next
  case (Cons d ds)
  show ?case
  proof (cases "wellFormed d")
    case True
    then show ?thesis using Cons by (simp add: processDoc_trace)
  next
    case False
    then show ?thesis by (simp add: processDoc_malformed)
  qed
qed

lemma forEachDoc_trace:
  "list_all wellFormed docs \<Longrightarrow>
     forEachDoc docs st =
       Inr (fold applyNodeOp (concat (map docNodeOps docs)) (fst st),
            fold applyEdgeOp (concat (map docEdgeOps docs)) (snd st))"
  by (induction docs arbitrary: st) (simp_all add: processDoc_trace)

subsection \<open>Edges\<close>

lemma edgeExists_iff: "edgeExists es a b r \<longleftrightarrow> (\<exists>e \<in> set es. sameLink a b r e)"
  by (simp add: edgeExists_def list_ex_iff)

lemma sameLink_new:
  "sameLink a b r \<lparr>edge_source = s, edge_target = t, edge_relation = r'\<rparr> \<Longrightarrow> e \<in> set es \<Longrightarrow>
   sameLink a b r e \<Longrightarrow> sameLink s t r' e"
  by (auto simp: sameLink_def)

lemma filter_empty_if_not_exists:
  assumes "\<not> edgeExists es s t r'"
    and "sameLink a b r \<lparr>edge_source = s, edge_target = t, edge_relation = r'\<rparr>"
  shows "filter (sameLink a b r) es = []"
proof -
  have "\<not> sameLink a b r e" if "e \<in> set es" for e
    using assms that sameLink_new [OF assms(2) that] by (auto simp: edgeExists_iff)
  then show ?thesis by (simp add: filter_empty_conv)
qed

lemma addEdge_edgesOK:
  assumes "edgesOK es"
  shows "edgesOK (addEdge s t r es)"
proof (cases "s = t \<or> edgeExists es s t r")
  case True
  then show ?thesis using assms by (auto simp: addEdge_def)
next
  case False
  then have eq: "addEdge s t r es = es @ [\<lparr>edge_source = s, edge_target = t, edge_relation = r\<rparr>]"
    by (simp add: addEdge_def)
  have "length (filter (sameLink a b r') (es @ [\<lparr>edge_source = s, edge_target = t, edge_relation = r\<rparr>])) \<le> 1"
    for a b r'
  proof (cases "sameLink a b r' \<lparr>edge_source = s, edge_target = t, edge_relation = r\<rparr>")
    case True
    then show ?thesis using filter_empty_if_not_exists [of es s t r a b r'] False by simp
  next
    case False
    then show ?thesis using assms by (simp add: edgesOK_def)
  qed
  then show ?thesis using assms False unfolding eq edgesOK_def by auto
qed

lemma fold_applyEdgeOp_edgesOK: "edgesOK es \<Longrightarrow> edgesOK (fold applyEdgeOp ops es)"
proof (induction ops arbitrary: es)
  case Nil
  then show ?case by simp
next
  case (Cons op ops)
  obtain s t r where "op = (s, t, r)" by (cases op) auto
  then show ?case using Cons by (simp add: addEdge_edgesOK)
qed

lemma set_addEdge_subset:
  "set (addEdge s t r es) \<subseteq> insert \<lparr>edge_source = s, edge_target = t, edge_relation = r\<rparr> (set es)"
  by (auto simp: addEdge_def)

lemma set_fold_applyEdgeOp_subset:
  "set (fold applyEdgeOp ops es) \<subseteq> set es \<union> mkEdge ` set ops"
proof (induction ops arbitrary: es)
  case Nil
  then show ?case by simp
next
  case (Cons op ops)
  obtain s t r where op: "op = (s, t, r)" by (cases op) auto
  have "set (fold applyEdgeOp ops (addEdge s t r es)) \<subseteq> set (addEdge s t r es) \<union> mkEdge ` set ops"
    using Cons.IH by blast
  then show ?case using set_addEdge_subset [of s t r es] by (auto simp: op mkEdge_def)
qed

lemma oriented_not_reverse:
  "orientedEdge \<lparr>edge_source = s, edge_target = t, edge_relation = r\<rparr> \<Longrightarrow>
   \<not> orientedEdge \<lparr>edge_source = t, edge_target = s, edge_relation = r'\<rparr>"
  by (auto simp: orientedEdge_def)

lemma oriented_no_loop:
  "orientedEdge \<lparr>edge_source = s, edge_target = t, edge_relation = r\<rparr> \<Longrightarrow> s \<noteq> t"
  by (auto simp: orientedEdge_def)

lemma addEdge_oriented_set:
  assumes "orientedEdge \<lparr>edge_source = s, edge_target = t, edge_relation = r\<rparr>"
    and "\<forall>e \<in> set es. orientedEdge e"
  shows "set (addEdge s t r es) = insert \<lparr>edge_source = s, edge_target = t, edge_relation = r\<rparr> (set es)"
proof (cases "edgeExists es s t r")
  case False
  then show ?thesis using oriented_no_loop [OF assms(1)] by (simp add: addEdge_def)
next
  case True
  then obtain e where e: "e \<in> set es" "sameLink s t r e" by (auto simp: edgeExists_iff)
  have "e = \<lparr>edge_source = s, edge_target = t, edge_relation = r\<rparr>"
  proof (rule ccontr)
    assume "e \<noteq> \<lparr>edge_source = s, edge_target = t, edge_relation = r\<rparr>"
    then have "e = \<lparr>edge_source = t, edge_target = s, edge_relation = r\<rparr>"
      using e(2) by (cases e) (auto simp: sameLink_def)
    then show False using assms e(1) oriented_not_reverse [OF assms(1)] by blast
  qed
  then show ?thesis using e(1) True by (auto simp: addEdge_def)
qed

lemma fold_applyEdgeOp_oriented_set:
  "\<forall>op \<in> set ops. orientedEdge (mkEdge op) \<Longrightarrow> \<forall>e \<in> set es. orientedEdge e \<Longrightarrow>
   set (fold applyEdgeOp ops es) = set es \<union> mkEdge ` set ops"
proof (induction ops arbitrary: es)
  case Nil
  then show ?case by simp
next
  case (Cons op ops)
  obtain s t r where op: "op = (s, t, r)" by (cases op) auto
  have o: "orientedEdge \<lparr>edge_source = s, edge_target = t, edge_relation = r\<rparr>"
    using Cons.prems(1) by (simp add: op mkEdge_def)
  have s1: "set (addEdge s t r es) = insert \<lparr>edge_source = s, edge_target = t, edge_relation = r\<rparr> (set es)"
    using addEdge_oriented_set [OF o Cons.prems(2)] .
  have "\<forall>e \<in> set (addEdge s t r es). orientedEdge e"
    using s1 o Cons.prems(2) by auto
  then have "set (fold applyEdgeOp ops (addEdge s t r es)) = set (addEdge s t r es) \<union> mkEdge ` set ops"
    using Cons.IH Cons.prems(1) by simp
  then show ?case using s1 by (auto simp: op mkEdge_def)
qed

lemma docEdgeOps_oriented: "op \<in> set (docEdgeOps doc) \<Longrightarrow> orientedEdge (mkEdge op)"
  by (auto simp: docEdgeOps_def mkEdge_def orientedEdge_def paperId_def authorId_def instId_def
        conceptId_def methodId_def)

lemma docNodeOps_ids:
  "map fst (docNodeOps doc) =
     paperId doc # map authorId (authorsOf doc) @ map instId (instituteOf doc) @
     map conceptId (conceptsOf doc) @ map methodId (methodsOf doc)"
  by (simp add: docNodeOps_def paperOp_def authorOp_def instOp_def conceptOp_def methodOp_def
        comp_def)

lemma docEdgeOps_endpoints:
  assumes "(s, t, r) \<in> set (docEdgeOps doc)"
  shows "s \<in> set (map fst (docNodeOps doc)) \<and> t \<in> set (map fst (docNodeOps doc))"
  using assms unfolding docNodeOps_ids by (auto simp: docEdgeOps_def)

subsection \<open>Nodes\<close>

lemma has_iff: "has ns k \<longleftrightarrow> map_of ns k \<noteq> None"
  by (simp add: has_def map_of_eq_None_iff)

lemma keys_incrementVal: "map fst (incrementVal k ns) = map fst ns"
  by (induction k ns rule: incrementVal.induct) auto

lemma map_of_incrementVal:
  "map_of (incrementVal k ns) k' =
     (if k' = k then map_option (bump 1) (map_of ns k) else map_of ns k')"
  by (induction k ns rule: incrementVal.induct) (auto simp: bump_def [abs_def])

lemma map_of_snoc:
  "map_of (ns @ [(k, n)]) k' =
     (case map_of ns k' of Some x \<Rightarrow> Some x | None \<Rightarrow> (if k' = k then Some n else None))"
  by (induction ns) auto

lemma map_of_applyNodeOp:
  "map_of (applyNodeOp op ns) k =
     (if k = fst op
      then (case map_of ns k of None \<Rightarrow> Some (mkNode op) | Some n \<Rightarrow> Some (bump 1 n))
      else map_of ns k)"
proof -
  obtain i l g v m where op: "op = (i, l, g, v, m)" by (cases op) auto
  show ?thesis
    by (cases "map_of ns i")
       (auto simp: op addNode_def has_iff map_of_incrementVal map_add_def mkNode_def
             split: option.splits)
qed

lemma keys_applyNodeOp:
  "map fst (applyNodeOp op ns) =
     (if fst op \<in> set (map fst ns) then map fst ns else map fst ns @ [fst op])"
proof -
  obtain i l g v m where op: "op = (i, l, g, v, m)" by (cases op) auto
  show ?thesis by (simp add: op addNode_def has_def keys_incrementVal)
qed

lemma keys_fold_applyNodeOp:
  "set (map fst (fold applyNodeOp ops ns)) = set (map fst ns) \<union> set (map fst ops)"
proof (induction ops arbitrary: ns)
  case Nil
  then show ?case by simp
next
  case (Cons op ops)
  have "set (map fst (applyNodeOp op ns)) = insert (fst op) (set (map fst ns))"
    unfolding keys_applyNodeOp by auto
  then show ?case using Cons.IH [of "applyNodeOp op ns"] by auto
qed

lemma distinct_fold_applyNodeOp:
  "distinct (map fst ns) \<Longrightarrow> distinct (map fst (fold applyNodeOp ops ns))"
proof (induction ops arbitrary: ns)
  case Nil
  then show ?case by simp
next
  case (Cons op ops)
  have "distinct (map fst (applyNodeOp op ns))"
    unfolding keys_applyNodeOp using Cons.prems by auto
  then show ?case using Cons.IH by simp
qed

lemma bump_bump: "bump a (bump b n) = bump (a + b) n"
  by (simp add: bump_def)

text \<open>
  The entry of a key after a list of operations: an entry that was there keeps everything
  but its weight, which grows by the number of operations on the key; a new entry is the
  first operation on the key, its weight raised once for every later one.
\<close>

lemma map_of_fold_applyNodeOp:
  "map_of (fold applyNodeOp ops ns) k =
     (case map_of ns k of
        Some n \<Rightarrow> Some (bump (int (count_list (map fst ops) k)) n)
      | None \<Rightarrow>
          (case find (\<lambda>op. fst op = k) ops of
             None \<Rightarrow> None
           | Some op \<Rightarrow> Some (bump (int (count_list (map fst ops) k) - 1) (mkNode op))))"
proof (induction ops arbitrary: ns)
  case Nil
  then show ?case by (simp add: bump_def split: option.splits)
next
  case (Cons op ops)
  show ?case
  proof (cases "fst op = k")
    case True
    then show ?thesis
      by (cases "map_of ns k")
         (simp_all add: Cons.IH map_of_applyNodeOp bump_bump add.commute split: option.splits)
  next
    case False
    then show ?thesis
      by (simp add: Cons.IH map_of_applyNodeOp split: option.splits)
  qed
qed

lemma node_id_mkNode: "node_id (mkNode op) = fst op"
  by (cases op) (simp add: mkNode_def)

lemma node_id_bump: "node_id (bump c n) = node_id n"
  by (simp add: bump_def)

lemma find_fst: "find (\<lambda>op. fst op = k) ops = Some op \<Longrightarrow> fst op = k \<and> op \<in> set ops"
  by (induction ops) (auto split: if_splits)

lemma find_None_iff_keys: "find (\<lambda>op. fst op = k) ops = None \<longleftrightarrow> k \<notin> set (map fst ops)"
  by (induction ops) auto

text \<open>Every entry of the final map is the first operation on its key, with the count added.\<close>

lemma entry_fold_applyNodeOp:
  assumes "(k, n) \<in> set (fold applyNodeOp ops [])"
  shows "\<exists>op \<in> set ops. fst op = k \<and> find (\<lambda>op. fst op = k) ops = Some op \<and>
           n = bump (int (count_list (map fst ops) k) - 1) (mkNode op)"
proof -
  have d: "distinct (map fst (fold applyNodeOp ops []))"
    by (rule distinct_fold_applyNodeOp) simp
  have "map_of (fold applyNodeOp ops []) k = Some n"
    using assms d by simp
  then show ?thesis
    unfolding map_of_fold_applyNodeOp
    by (auto split: option.splits dest: find_fst)
qed

lemma entry_of_key:
  assumes "k \<in> set (map fst ops)"
  shows "\<exists>op. find (\<lambda>op. fst op = k) ops = Some op \<and>
           (k, bump (int (count_list (map fst ops) k) - 1) (mkNode op)) \<in> set (fold applyNodeOp ops [])"
proof -
  obtain op where f: "find (\<lambda>op. fst op = k) ops = Some op"
    using assms find_None_iff_keys [of k ops] by (cases "find (\<lambda>op. fst op = k) ops") auto
  have "map_of (fold applyNodeOp ops []) k = Some (bump (int (count_list (map fst ops) k) - 1) (mkNode op))"
    unfolding map_of_fold_applyNodeOp using f by simp
  then show ?thesis using f by (auto dest: map_of_SomeD)
qed

subsection \<open>The returned graph\<close>

lemma buildGlobalGraph_trace:
  "buildGlobalGraph docs = (if list_all wellFormed docs then Inr (tracedGraph docs) else Inl TypeError)"
  by (simp add: buildGlobalGraph_def forEachDoc_trace forEachDoc_malformed tracedGraph_def
        allNodeOps_def allEdgeOps_def)

lemma buildGlobalGraph_Inr:
  "buildGlobalGraph docs = Inr g \<longleftrightarrow> list_all wellFormed docs \<and> g = tracedGraph docs"
  by (auto simp: buildGlobalGraph_trace)

lemma edgesOK_tracedGraph: "edgesOK (kg_edges (tracedGraph docs))"
proof -
  have "edgesOK []" by (simp add: edgesOK_def)
  then show ?thesis using fold_applyEdgeOp_edgesOK by (simp add: tracedGraph_def)
qed

lemma buildGlobalGraph_example: "buildGlobalGraph [doc1, doc2] = Inr exGraph"
  by code_simp

text \<open>
  C3. In every graph that \<open>buildGlobalGraph\<close> returns no edge has its source equal to
  its target, and for all endpoints \<open>a\<close>, \<open>b\<close> and every relation \<open>r\<close> at most one
  edge joins \<open>a\<close> and \<open>b\<close> (in either direction) with relation \<open>r\<close>. An attempt to
  add a self-loop leaves the edges as they are. For \<open>a \<noteq> b\<close>, adding \<open>(a, b, r)\<close> and
  then \<open>(b, a, r)\<close> to the empty edge list gives exactly the one edge \<open>(a, b, r)\<close>, and on
  any edge list the second call changes nothing.
\<close>

theorem edges_no_loops_no_duplicates:
  "(buildGlobalGraph docs = Inr g \<longrightarrow>
      (\<forall>e \<in> set (kg_edges g). edge_source e \<noteq> edge_target e) \<and>
      (\<forall>a b r. length (filter (sameLink a b r) (kg_edges g)) \<le> 1)) \<and>
   addEdge a a r es = es \<and>
   (a \<noteq> b \<longrightarrow>
      addEdge b a r (addEdge a b r []) = [\<lparr>edge_source = a, edge_target = b, edge_relation = r\<rparr>] \<and>
      addEdge b a r (addEdge a b r es) = addEdge a b r es)"
proof -
  have 1: "buildGlobalGraph docs = Inr g \<longrightarrow>
      (\<forall>e \<in> set (kg_edges g). edge_source e \<noteq> edge_target e) \<and>
      (\<forall>a b r. length (filter (sameLink a b r) (kg_edges g)) \<le> 1)"
    using edgesOK_tracedGraph [of docs] by (auto simp: buildGlobalGraph_Inr edgesOK_def)
  have 2: "addEdge a a r es = es"
    by (simp add: addEdge_def)
  have 3: "addEdge b a r (addEdge a b r []) = [\<lparr>edge_source = a, edge_target = b, edge_relation = r\<rparr>]"
    if "a \<noteq> b"
    using that by (simp add: addEdge_def edgeExists_def sameLink_def)
  have 4: "addEdge b a r (addEdge a b r es) = addEdge a b r es" if "a \<noteq> b"
    using that by (auto simp: addEdge_def edgeExists_iff sameLink_def)
  show ?thesis using 1 2 3 4 by blast
qed

text \<open>The two documents of the end-to-end scenario, and the edges A-B and B-A.\<close>

theorem edges_no_loops_no_duplicates_witness:
  "buildGlobalGraph [doc1, doc2] = Inr exGraph \<and>
   list_all (\<lambda>e. edge_source e \<noteq> edge_target e) (kg_edges exGraph) \<and>
   length (filter (sameLink ''inst:MIT'' ''author:K. Chen'' ''affiliated_with'') (kg_edges exGraph)) = 1 \<and>
   ''A'' \<noteq> ''B'' \<and>
   addEdge ''B'' ''A'' ''r'' (addEdge ''A'' ''B'' ''r'' []) =
     [\<lparr>edge_source = ''A'', edge_target = ''B'', edge_relation = ''r''\<rparr>]"
proof -
  have h: "buildGlobalGraph [doc1, doc2] = Inr exGraph"
    by (rule buildGlobalGraph_example)
  have n: "''A'' \<noteq> ''B''" by simp
  have c: "length (filter (sameLink ''inst:MIT'' ''author:K. Chen'' ''affiliated_with'')
             (kg_edges exGraph)) = 1"
    by (simp add: exGraph_def mkEdge_def sameLink_def)
  show ?thesis
    using edges_no_loops_no_duplicates
      [of "[doc1, doc2]" exGraph "''A''" "''r''" "[]" "''B''"] h n c
    unfolding list_all_iff by blast
qed

lemma node_ids_are_keys:
  "map node_id (kg_nodes (tracedGraph docs)) = map fst (fold applyNodeOp (allNodeOps docs) [])"
proof -
  have "node_id n = k" if "(k, n) \<in> set (fold applyNodeOp (allNodeOps docs) [])" for k n
    using entry_fold_applyNodeOp [OF that] by (auto simp: node_id_bump node_id_mkNode)
  then show ?thesis by (auto simp: tracedGraph_def)
qed

lemma node_ids_tracedGraph:
  "set (map node_id (kg_nodes (tracedGraph docs))) = set (map fst (allNodeOps docs))"
  unfolding node_ids_are_keys using keys_fold_applyNodeOp [of "allNodeOps docs" "[]"] by simp

lemma distinct_node_ids_tracedGraph: "distinct (map node_id (kg_nodes (tracedGraph docs)))"
  unfolding node_ids_are_keys by (rule distinct_fold_applyNodeOp) simp

text \<open>
  C10. In every graph that \<open>buildGlobalGraph\<close> returns, the source id and the target id
  of every edge are ids of returned nodes.
\<close>

theorem no_dangling_edges:
  "buildGlobalGraph docs = Inr g \<Longrightarrow>
     \<forall>e \<in> set (kg_edges g).
        edge_source e \<in> set (map node_id (kg_nodes g)) \<and>
        edge_target e \<in> set (map node_id (kg_nodes g))"
proof
  fix e
  assume b: "buildGlobalGraph docs = Inr g" and e: "e \<in> set (kg_edges g)"
  have g: "g = tracedGraph docs" using b by (simp add: buildGlobalGraph_Inr)
  have "e \<in> mkEdge ` set (allEdgeOps docs)"
    using e set_fold_applyEdgeOp_subset [of "allEdgeOps docs" "[]"] by (auto simp: g tracedGraph_def)
  then obtain s t r d where d: "d \<in> set docs" "(s, t, r) \<in> set (docEdgeOps d)" "e = mkEdge (s, t, r)"
    by (auto simp: allEdgeOps_def)
  have "s \<in> set (map fst (allNodeOps docs)) \<and> t \<in> set (map fst (allNodeOps docs))"
    using docEdgeOps_endpoints [OF d(2)] d(1) by (auto simp: allNodeOps_def)
  then show "edge_source e \<in> set (map node_id (kg_nodes g)) \<and>
             edge_target e \<in> set (map node_id (kg_nodes g))"
    unfolding g node_ids_tracedGraph by (simp add: d(3) mkEdge_def)
qed

text \<open>The graph of the two scenario documents.\<close>

theorem no_dangling_edges_witness:
  "buildGlobalGraph [doc1, doc2] = Inr exGraph \<and>
   list_all (\<lambda>e. edge_source e \<in> set (map node_id (kg_nodes exGraph)) \<and>
                  edge_target e \<in> set (map node_id (kg_nodes exGraph))) (kg_edges exGraph)"
  using no_dangling_edges [OF buildGlobalGraph_example] buildGlobalGraph_example
  unfolding list_all_iff by blast

subsection \<open>The end-to-end scenario and missing arrays\<close>

lemma scenario_strings:
  "trim ''K. Chen'' = ''K. Chen''" "trim ''MIT'' = ''MIT''" "trim (toLowerCase ''GNN'') = ''gnn''"
  "toUpperCase (charAt0 ''GNN'') @ slice1 ''GNN'' = ''GNN''"
  by code_simp+

text \<open>
  C1 (amended). Two documents with different ids, each with the one author "K. Chen", the
  institute "MIT", the one key concept "GNN" and no methods, give exactly five nodes: two
  PAPER nodes of weight 10, one AUTHOR node of weight 6, one INSTITUTE node of weight 7 and
  one CONCEPT node of weight 4 (each shared node has its base weight plus one merge); and
  exactly seven edges: 2 written_by, 2 published_at, 1 affiliated_with and 2 discusses.
\<close>

theorem end_to_end_scenario:
  "i1 \<noteq> i2 \<Longrightarrow>
     \<exists>g. buildGlobalGraph [scenarioDoc i1 t1 p1 s1, scenarioDoc i2 t2 p2 s2] = Inr g \<and>
         map (\<lambda>n. (node_group n, node_val n)) (kg_nodes g) =
           [(''PAPER'', 10), (''AUTHOR'', 6), (''INSTITUTE'', 7), (''CONCEPT'', 4), (''PAPER'', 10)] \<and>
         map edge_relation (kg_edges g) =
           [''written_by'', ''published_at'', ''affiliated_with'', ''discusses'',
            ''written_by'', ''published_at'', ''discusses'']"
  by (simp add: scenarioDoc_def buildGlobalGraph_def processDoc_def
        authorStep_def instituteStep_def affiliationStep_def conceptStep_def methodStep_def
        addNode_def addEdge_def has_def edgeExists_def sameLink_def scenario_strings Let_def)

text \<open>The scenario with the ids Doc1 and Doc2.\<close>

theorem end_to_end_scenario_witness:
  "''Doc1'' \<noteq> ''Doc2'' \<and>
   (\<exists>g. buildGlobalGraph [doc1, doc2] = Inr g \<and>
         map (\<lambda>n. (node_group n, node_val n)) (kg_nodes g) =
           [(''PAPER'', 10), (''AUTHOR'', 6), (''INSTITUTE'', 7), (''CONCEPT'', 4), (''PAPER'', 10)] \<and>
         map edge_relation (kg_edges g) =
           [''written_by'', ''published_at'', ''affiliated_with'', ''discusses'',
            ''written_by'', ''published_at'', ''discusses''])"
proof -
  have h: "''Doc1'' \<noteq> ''Doc2''" by simp
  show ?thesis
    using end_to_end_scenario [OF h, of "''Title Doc1''" "''2024-01-01''" "''Summary''"
        "''Title Doc2''" "''2024-01-01''" "''Summary''"] h
    unfolding doc1_def doc2_def by blast
qed

text \<open>
  In the scenario the weights are 6, 7 and 4: there is no AUTHOR node of weight 7, no
  INSTITUTE node of weight 8 and no CONCEPT node of weight 5.
\<close>

theorem end_to_end_scenario_counterexample:
  "buildGlobalGraph [doc1, doc2] = Inr exGraph \<and>
   map (\<lambda>n. (node_group n, node_val n)) (kg_nodes exGraph) =
     [(''PAPER'', 10), (''AUTHOR'', 6), (''INSTITUTE'', 7), (''CONCEPT'', 4), (''PAPER'', 10)] \<and>
   filter (\<lambda>n. node_group n = ''AUTHOR'' \<and> node_val n = 7) (kg_nodes exGraph) = [] \<and>
   filter (\<lambda>n. node_group n = ''INSTITUTE'' \<and> node_val n = 8) (kg_nodes exGraph) = [] \<and>
   filter (\<lambda>n. node_group n = ''CONCEPT'' \<and> node_val n = 5) (kg_nodes exGraph) = []"
proof -
  have "map (\<lambda>n. (node_group n, node_val n)) (kg_nodes exGraph) =
     [(''PAPER'', 10), (''AUTHOR'', 6), (''INSTITUTE'', 7), (''CONCEPT'', 4), (''PAPER'', 10)] \<and>
   filter (\<lambda>n. node_group n = ''AUTHOR'' \<and> node_val n = 7) (kg_nodes exGraph) = [] \<and>
   filter (\<lambda>n. node_group n = ''INSTITUTE'' \<and> node_val n = 8) (kg_nodes exGraph) = [] \<and>
   filter (\<lambda>n. node_group n = ''CONCEPT'' \<and> node_val n = 5) (kg_nodes exGraph) = []"
    by (simp add: exGraph_def mkNode_def)
  then show ?thesis using buildGlobalGraph_example by blast
qed

text \<open>
  C5 (amended). If every document carries its \<open>authors\<close>, \<open>keyConcepts\<close> and
  \<open>methods\<close> arrays of strings (empty or not), \<open>buildGlobalGraph\<close> returns a graph,
  whatever the institute is. A document with empty arrays and a \<open>null\<close> or empty institute adds its
  PAPER node and nothing else.
\<close>

theorem arrays_present_never_raises:
  "(\<forall>d \<in> set docs. doc_authors d \<noteq> None \<and> doc_keyConcepts d \<noteq> None \<and> doc_methods d \<noteq> None) \<Longrightarrow>
     (\<exists>g. buildGlobalGraph docs = Inr g) \<and>
     (\<forall>d st. doc_authors d = Some [] \<and> (doc_institute d = None \<or> doc_institute d = Some []) \<and>
             doc_keyConcepts d = Some [] \<and> doc_methods d = Some [] \<longrightarrow>
        processDoc d st =
          Inr (addNode (''paper:'' @ doc_id d) (doc_title d) ''PAPER'' 10
                 (PaperMetadata (doc_title d) (doc_publicationDate d) (doc_summary d) (doc_id d))
                 (fst st),
               snd st))"
proof -
  assume a: "\<forall>d \<in> set docs. doc_authors d \<noteq> None \<and> doc_keyConcepts d \<noteq> None \<and> doc_methods d \<noteq> None"
  then have "list_all wellFormed docs"
    by (simp add: list_all_iff wellFormed_def)
  then have 1: "\<exists>g. buildGlobalGraph docs = Inr g"
    by (simp add: buildGlobalGraph_trace)
  have 2: "processDoc d st =
          Inr (addNode (''paper:'' @ doc_id d) (doc_title d) ''PAPER'' 10
                 (PaperMetadata (doc_title d) (doc_publicationDate d) (doc_summary d) (doc_id d))
                 (fst st),
               snd st)"
    if "doc_authors d = Some [] \<and> (doc_institute d = None \<or> doc_institute d = Some []) \<and>
             doc_keyConcepts d = Some [] \<and> doc_methods d = Some []" for d st
    using that by (auto simp: processDoc_def Let_def)
  show ?thesis using 1 2 by blast
qed

text \<open>A scenario document followed by the document with empty arrays and no institute.\<close>

theorem arrays_present_never_raises_witness:
  "list_all (\<lambda>d. doc_authors d \<noteq> None \<and> doc_keyConcepts d \<noteq> None \<and> doc_methods d \<noteq> None)
      [doc1, sparseDoc] \<and>
   (\<exists>g. buildGlobalGraph [doc1, sparseDoc] = Inr g) \<and>
   processDoc sparseDoc ([], []) =
     Inr ([(''paper:Doc3'',
            mkNode (''paper:Doc3'', ''Title Doc3'', ''PAPER'', 10,
                    PaperMetadata ''Title Doc3'' ''2024-01-01'' ''Summary'' ''Doc3''))], [])"
proof -
  have h: "\<forall>d \<in> set [doc1, sparseDoc].
      doc_authors d \<noteq> None \<and> doc_keyConcepts d \<noteq> None \<and> doc_methods d \<noteq> None"
    by (simp add: doc1_def scenarioDoc_def sparseDoc_def)
  have s: "doc_authors sparseDoc = Some [] \<and>
           (doc_institute sparseDoc = None \<or> doc_institute sparseDoc = Some []) \<and>
           doc_keyConcepts sparseDoc = Some [] \<and> doc_methods sparseDoc = Some []"
    by (simp add: sparseDoc_def)
  have "processDoc sparseDoc ([], []) =
     Inr ([(''paper:Doc3'',
            mkNode (''paper:Doc3'', ''Title Doc3'', ''PAPER'', 10,
                    PaperMetadata ''Title Doc3'' ''2024-01-01'' ''Summary'' ''Doc3''))], [])"
    using conjunct2 [OF arrays_present_never_raises [OF h], rule_format, OF s, of "([], [])"]
    by (simp add: sparseDoc_def addNode_def has_def mkNode_def)
  then show ?thesis
    using conjunct1 [OF arrays_present_never_raises [OF h]] h unfolding list_all_iff by blast
qed

text \<open>
  A document without one of the three arrays makes \<open>buildGlobalGraph\<close> throw a
  TypeError: the builder has no default for a missing array.
\<close>

theorem missing_array_counterexample:
  "buildGlobalGraph [malformedDoc] = Inl TypeError \<and>
   buildGlobalGraph [doc1, sparseDoc\<lparr>doc_keyConcepts := None\<rparr>] = Inl TypeError \<and>
   buildGlobalGraph [sparseDoc\<lparr>doc_methods := None\<rparr>, doc2] = Inl TypeError"
  by (simp add: buildGlobalGraph_trace wellFormed_def malformedDoc_def sparseDoc_def)

subsection \<open>Order of the documents\<close>

lemma docNodeOps_canonical:
  "(i, l, g, v, m) \<in> set (docNodeOps doc) \<Longrightarrow> g = idGroup i \<and> v = idBase i"
  by (auto simp: docNodeOps_def paperOp_def authorOp_def instOp_def conceptOp_def methodOp_def
        paperId_def authorId_def instId_def conceptId_def methodId_def idGroup_def idBase_def)

lemma allNodeOps_canonical:
  "op \<in> set (allNodeOps docs) \<Longrightarrow>
     node_group (mkNode op) = idGroup (fst op) \<and> node_val (mkNode op) = idBase (fst op)"
proof -
  assume a: "op \<in> set (allNodeOps docs)"
  obtain i l g v m where op: "op = (i, l, g, v, m)" by (cases op) auto
  from a obtain d where "(i, l, g, v, m) \<in> set (docNodeOps d)"
    by (auto simp: allNodeOps_def op)
  then show ?thesis using docNodeOps_canonical by (simp add: op mkNode_def)
qed

lemma node_group_bump: "node_group (bump c n) = node_group n"
  by (simp add: bump_def)

lemma node_val_bump: "node_val (bump c n) = node_val n + c"
  by (simp add: bump_def)

text \<open>The id, group and weight of every node of the graph, from the operations alone.\<close>

lemma nodeWeights_tracedGraph:
  "nodeWeights (tracedGraph docs) =
     (\<lambda>k. (k, idGroup k, idBase k + int (count_list (map fst (allNodeOps docs)) k) - 1)) `
       set (map fst (allNodeOps docs))"
  (is "?L = ?R")
proof
  show "?L \<subseteq> ?R"
  proof
    fix x assume "x \<in> ?L"
    then obtain k n where kn: "(k, n) \<in> set (fold applyNodeOp (allNodeOps docs) [])"
        and x: "x = (node_id n, node_group n, node_val n)"
      by (auto simp: nodeWeights_def tracedGraph_def)
    from entry_fold_applyNodeOp [OF kn] obtain op where
      op: "op \<in> set (allNodeOps docs)" "fst op = k"
        "n = bump (int (count_list (map fst (allNodeOps docs)) k) - 1) (mkNode op)"
      by blast
    have "x = (k, idGroup k, idBase k + int (count_list (map fst (allNodeOps docs)) k) - 1)"
      using allNodeOps_canonical [OF op(1)] op(2)
      by (simp add: x op(3) node_id_bump node_group_bump node_val_bump node_id_mkNode)
    moreover have "k \<in> set (map fst (allNodeOps docs))"
      using op(1,2) by force
    ultimately show "x \<in> ?R" by blast
  qed
next
  show "?R \<subseteq> ?L"
  proof
    fix x assume "x \<in> ?R"
    then obtain k where k: "k \<in> set (map fst (allNodeOps docs))"
      and x: "x = (k, idGroup k, idBase k + int (count_list (map fst (allNodeOps docs)) k) - 1)"
      by blast
    from entry_of_key [OF k] obtain op where
      f: "find (\<lambda>op. fst op = k) (allNodeOps docs) = Some op"
      and e: "(k, bump (int (count_list (map fst (allNodeOps docs)) k) - 1) (mkNode op))
                \<in> set (fold applyNodeOp (allNodeOps docs) [])"
      by blast
    have op: "op \<in> set (allNodeOps docs)" "fst op = k"
      using find_fst [OF f] by simp_all
    let ?n = "bump (int (count_list (map fst (allNodeOps docs)) k) - 1) (mkNode op)"
    have "x = (node_id ?n, node_group ?n, node_val ?n)"
      using allNodeOps_canonical [OF op(1)] op(2)
      by (simp add: x node_id_bump node_group_bump node_val_bump node_id_mkNode)
    moreover have "?n \<in> set (kg_nodes (tracedGraph docs))"
      using e by (force simp: tracedGraph_def)
    ultimately show "x \<in> ?L" unfolding nodeWeights_def by force
  qed
qed

lemma mset_concat_map_cong:
  "mset xs = mset ys \<Longrightarrow> mset (concat (map f xs)) = mset (concat (map f ys))"
proof -
  assume a: "mset xs = mset ys"
  have "mset (concat (map f zs)) = sum_mset (image_mset (\<lambda>z. mset (f z)) (mset zs))" for zs
    by (induction zs) simp_all
  then show ?thesis using a by simp
qed

lemma count_list_mset_cong: "mset xs = mset ys \<Longrightarrow> count_list xs k = count_list ys k"
  by (metis count_mset)

lemma nodeWeights_permutation:
  assumes "mset docs' = mset docs"
  shows "nodeWeights (tracedGraph docs') = nodeWeights (tracedGraph docs)"
proof -
  have m: "mset (map fst (allNodeOps docs')) = mset (map fst (allNodeOps docs))"
    using mset_concat_map_cong [OF assms, of docNodeOps] by (simp add: allNodeOps_def)
  have s: "set (map fst (allNodeOps docs')) = set (map fst (allNodeOps docs))"
    using m by (rule mset_eq_setD)
  have c: "count_list (map fst (allNodeOps docs')) k = count_list (map fst (allNodeOps docs)) k" for k
    using m by (rule count_list_mset_cong)
  show ?thesis unfolding nodeWeights_tracedGraph s c ..
qed

lemma edges_tracedGraph:
  "set (kg_edges (tracedGraph docs)) = mkEdge ` set (allEdgeOps docs)"
proof -
  have "\<forall>op \<in> set (allEdgeOps docs). orientedEdge (mkEdge op)"
    using docEdgeOps_oriented by (auto simp: allEdgeOps_def)
  then show ?thesis
    using fold_applyEdgeOp_oriented_set [of "allEdgeOps docs" "[]"] by (simp add: tracedGraph_def)
qed

lemma edges_permutation:
  assumes "mset docs' = mset docs"
  shows "set (kg_edges (tracedGraph docs')) = set (kg_edges (tracedGraph docs))"
proof -
  have "set docs' = set docs" using assms by (rule mset_eq_setD)
  then show ?thesis unfolding edges_tracedGraph by (simp add: allEdgeOps_def)
qed

text \<open>
  C4. The builder is a function of its input, and the result does not depend on the order
  of the documents: for every permutation \<open>docs'\<close> of \<open>docs\<close>, either both builds throw,
  or both return a graph, with the same set of node ids (each id on one node only), the
  same group and weight on every id, and the same set of edges.
\<close>

theorem build_order_independent:
  "mset docs' = mset docs \<Longrightarrow>
     (case buildGlobalGraph docs of
        Inl e \<Rightarrow> buildGlobalGraph docs' = Inl e
      | Inr g \<Rightarrow>
          (\<exists>g'. buildGlobalGraph docs' = Inr g' \<and>
                distinct (map node_id (kg_nodes g)) \<and> distinct (map node_id (kg_nodes g')) \<and>
                set (map node_id (kg_nodes g')) = set (map node_id (kg_nodes g)) \<and>
                nodeWeights g' = nodeWeights g \<and>
                set (kg_edges g') = set (kg_edges g)))"
proof -
  assume a: "mset docs' = mset docs"
  have s: "set docs' = set docs" using a by (rule mset_eq_setD)
  have w: "list_all wellFormed docs' = list_all wellFormed docs"
    by (simp add: list_all_iff s)
  have ids: "set (map node_id (kg_nodes (tracedGraph docs'))) =
             set (map node_id (kg_nodes (tracedGraph docs)))"
    unfolding node_ids_tracedGraph using s by (simp add: allNodeOps_def)
  show ?thesis
    using w ids nodeWeights_permutation [OF a] edges_permutation [OF a]
      distinct_node_ids_tracedGraph [of docs] distinct_node_ids_tracedGraph [of docs']
    by (simp add: buildGlobalGraph_trace)
qed

text \<open>The two scenario documents in both orders.\<close>

theorem build_order_independent_witness:
  "mset [doc2, doc1] = mset [doc1, doc2] \<and>
   buildGlobalGraph [doc1, doc2] = Inr exGraph \<and>
   (\<exists>g'. buildGlobalGraph [doc2, doc1] = Inr g' \<and>
         set (map node_id (kg_nodes g')) = set (map node_id (kg_nodes exGraph)) \<and>
         nodeWeights g' = nodeWeights exGraph \<and>
         set (kg_edges g') = set (kg_edges exGraph))"
proof -
  have h: "mset [doc2, doc1] = mset [doc1, doc2]" by (simp add: add_mset_commute)
  show ?thesis
    using build_order_independent [OF h] h buildGlobalGraph_example by auto
qed

text \<open>
  The label of a merged node is the one seen first, so it does follow the order of the
  documents: "GNN" and "Gnn" share the node \<open>concept:gnn\<close>.
\<close>

lemma label_follows_first_document:
  "map_sum (\<lambda>e. e)
     (\<lambda>g. map node_label (filter (\<lambda>n. node_id n = ''concept:gnn'') (kg_nodes g)))
     (buildGlobalGraph [doc1, otherCaseDoc]) = Inr [''GNN''] \<and>
   map_sum (\<lambda>e. e)
     (\<lambda>g. map node_label (filter (\<lambda>n. node_id n = ''concept:gnn'') (kg_nodes g)))
     (buildGlobalGraph [otherCaseDoc, doc1]) = Inr [''Gnn'']"
  by code_simp

subsection \<open>Merging nodes\<close>

lemma applyNodeOp_eq: "applyNodeOp = (\<lambda>(i, l, g, v, m). addNode i l g v m)"
  by (auto simp: fun_eq_iff)

lemma count_list_prefix_map:
  "count_list (map (\<lambda>x. p @ f x) xs) (p @ y) = count_list (map f xs) y"
  by (induction xs) auto

lemma count_author_ids:
  "count_list (map fst (docNodeOps d)) (''author:'' @ name) =
     count_list (map trim (authorsOf d)) name"
proof -
  have a: "count_list (map authorId (authorsOf d)) (''author:'' @ name) =
           count_list (map trim (authorsOf d)) name"
    using count_list_prefix_map [of "''author:''" trim "authorsOf d" name]
    by (simp add: authorId_def [abs_def])
  have i: "count_list (map instId xs) (''author:'' @ name) = 0" for xs
    by (induction xs) (auto simp: instId_def)
  have c: "count_list (map conceptId xs) (''author:'' @ name) = 0" for xs
    by (induction xs) (auto simp: conceptId_def)
  have m: "count_list (map methodId xs) (''author:'' @ name) = 0" for xs
    by (induction xs) (auto simp: methodId_def)
  show ?thesis
    unfolding docNodeOps_ids using a i c m by (simp add: paperId_def)
qed

lemma count_all_author_ids:
  "count_list (map fst (allNodeOps docs)) (''author:'' @ name) =
     sum_list (map (\<lambda>d. count_list (map trim (authorsOf d)) name) docs)"
proof -
  define k where "k = ''author:'' @ name"
  have d: "count_list (map fst (docNodeOps d)) k = count_list (map trim (authorsOf d)) name" for d
    unfolding k_def by (rule count_author_ids)
  have "count_list (map fst (allNodeOps docs)) k =
          sum_list (map (\<lambda>d. count_list (map trim (authorsOf d)) name) docs)"
    by (induction docs) (simp_all add: allNodeOps_def d)
  then show ?thesis unfolding k_def .
qed

lemma sum_list_indicator:
  "\<forall>d \<in> set docs. c d \<le> (1::nat) \<Longrightarrow>
     sum_list (map c docs) = length (filter (\<lambda>d. c d \<noteq> 0) docs)"
proof (induction docs)
  case Nil
  then show ?case by simp
next
  case (Cons d docs)
  have "c d = 0 \<or> c d = 1" using Cons.prems by (simp add: le_Suc_eq)
  then show ?case using Cons by auto
qed

lemma author_ops:
  assumes "op \<in> set (allNodeOps docs)" "fst op = ''author:'' @ name"
  shows "op = (''author:'' @ name, name, ''AUTHOR'', 5, EmptyObject)"
proof -
  from assms(1) obtain d where "op \<in> set (docNodeOps d)"
    by (auto simp: allNodeOps_def)
  then show ?thesis
    using assms(2)
    by (auto simp: docNodeOps_def paperOp_def authorOp_def instOp_def conceptOp_def methodOp_def
          paperId_def authorId_def instId_def conceptId_def methodId_def)
qed

lemma filter_distinct_key:
  "distinct (map f xs) \<Longrightarrow> x \<in> set xs \<Longrightarrow> filter (\<lambda>y. f y = f x) xs = [x]"
proof (induction xs)
  case Nil
  then show ?case by simp
next
  case (Cons z zs)
  show ?case
  proof (cases "z = x")
    case True
    have "f x \<notin> f ` set zs"
      using Cons.prems(1) True by simp
    then have "f y \<noteq> f x" if "y \<in> set zs" for y
      using that by (metis imageI)
    then have "filter (\<lambda>y. f y = f x) zs = []"
      by (simp add: filter_empty_conv)
    then show ?thesis using True by simp
  next
    case False
    then have "x \<in> set zs" using Cons.prems(2) by simp
    moreover have "f z \<noteq> f x" using Cons.prems(1) \<open>x \<in> set zs\<close> by auto
    ultimately show ?thesis using Cons by simp
  qed
qed

lemma shared_author_node:
  assumes b: "buildGlobalGraph docs = Inr g"
    and two: "length (filter (\<lambda>d. name \<in> set (map trim (authorsOf d))) docs) = 2"
    and once: "\<forall>d \<in> set docs. count_list (map trim (authorsOf d)) name \<le> 1"
  shows "\<exists>a. filter (\<lambda>n. node_id n = ''author:'' @ name) (kg_nodes g) = [a] \<and>
             node_label a = name \<and> node_group a = ''AUTHOR'' \<and> node_val a = 6 \<and>
             node_metadata a = EmptyObject"
proof -
  let ?k = "''author:'' @ name"
  let ?ops = "allNodeOps docs"
  have g: "g = tracedGraph docs" using b by (simp add: buildGlobalGraph_Inr)
  have "sum_list (map (\<lambda>d. count_list (map trim (authorsOf d)) name) docs) =
        length (filter (\<lambda>d. count_list (map trim (authorsOf d)) name \<noteq> 0) docs)"
    using once by (rule sum_list_indicator)
  also have "\<dots> = 2" using two by (simp add: count_list_0_iff)
  finally have cnt: "count_list (map fst ?ops) ?k = 2"
    by (simp only: count_all_author_ids)
  then have "?k \<in> set (map fst ?ops)"
    using count_list_0_iff [of "map fst ?ops" ?k] by simp
  from entry_of_key [OF this] obtain op where
    f: "find (\<lambda>op. fst op = ?k) ?ops = Some op"
    and e: "(?k, bump (int (count_list (map fst ?ops) ?k) - 1) (mkNode op))
              \<in> set (fold applyNodeOp ?ops [])"
    by blast
  have op: "op = (?k, name, ''AUTHOR'', 5, EmptyObject)"
    using find_fst [OF f] author_ops by blast
  let ?a = "bump 1 (mkNode op)"
  have a_in: "?a \<in> set (kg_nodes g)"
    using e cnt by (force simp: g tracedGraph_def)
  have a_id: "node_id ?a = ?k"
    by (simp add: op bump_def mkNode_def)
  have "filter (\<lambda>n. node_id n = node_id ?a) (kg_nodes g) = [?a]"
    using filter_distinct_key [OF _ a_in, of node_id] distinct_node_ids_tracedGraph [of docs]
    by (simp add: g)
  then have "filter (\<lambda>n. node_id n = ?k) (kg_nodes g) = [?a]"
    by (simp only: a_id)
  moreover have "node_label ?a = name \<and> node_group ?a = ''AUTHOR'' \<and> node_val ?a = 6 \<and>
                 node_metadata ?a = EmptyObject"
    by (simp add: op bump_def mkNode_def)
  ultimately show ?thesis by blast
qed

text \<open>
  C2 (amended). Adding a node id that the map already has keeps the keys and their order,
  leaves every other entry alone and changes the entry of that id in its weight only,
  which grows by 1; so after any sequence of further \<open>addNode\<close> calls an existing node
  still has its first label, group and metadata, and its weight has grown by the number
  of calls on its id. If the author names of the documents are ASCII strings, exactly two
  documents list an author name (after trimming) and no document lists it twice, the graph
  has exactly one node with the id of that author: an AUTHOR node labelled with the name,
  of weight 5 + 1 = 6.
\<close>

theorem merge_rule_and_shared_author:
  "(has nodes k \<longrightarrow>
      map fst (addNode k l grp v m nodes) = map fst nodes \<and>
      map_of (addNode k l grp v m nodes) k =
        map_option (\<lambda>n. n\<lparr>node_val := node_val n + 1\<rparr>) (map_of nodes k) \<and>
      (\<forall>k'. k' \<noteq> k \<longrightarrow> map_of (addNode k l grp v m nodes) k' = map_of nodes k')) \<and>
   (map_of nodes k = Some n \<longrightarrow>
      map_of (fold (\<lambda>(i, l, g, v, m). addNode i l g v m) ops nodes) k =
        Some (n\<lparr>node_val := node_val n + int (count_list (map fst ops) k)\<rparr>)) \<and>
   (buildGlobalGraph docs = Inr g \<and>
    (\<forall>d \<in> set docs. \<forall>a \<in> set (authorsOf d). isAscii a) \<and>
    length (filter (\<lambda>d. name \<in> set (map trim (authorsOf d))) docs) = 2 \<and>
    (\<forall>d \<in> set docs. count_list (map trim (authorsOf d)) name \<le> 1) \<longrightarrow>
      (\<exists>a. filter (\<lambda>n. node_id n = ''author:'' @ name) (kg_nodes g) = [a] \<and>
           node_label a = name \<and> node_group a = ''AUTHOR'' \<and> node_val a = 6 \<and>
           node_metadata a = EmptyObject))"
proof -
  have 1: "map fst (addNode k l grp v m nodes) = map fst nodes \<and>
      map_of (addNode k l grp v m nodes) k =
        map_option (\<lambda>n. n\<lparr>node_val := node_val n + 1\<rparr>) (map_of nodes k) \<and>
      (\<forall>k'. k' \<noteq> k \<longrightarrow> map_of (addNode k l grp v m nodes) k' = map_of nodes k')"
    if "has nodes k"
    using that
    by (simp add: addNode_def keys_incrementVal map_of_incrementVal bump_def [abs_def])
  have 2: "map_of (fold (\<lambda>(i, l, g, v, m). addNode i l g v m) ops nodes) k =
        Some (n\<lparr>node_val := node_val n + int (count_list (map fst ops) k)\<rparr>)"
    if "map_of nodes k = Some n"
    using that map_of_fold_applyNodeOp [of ops nodes k]
    by (simp add: applyNodeOp_eq bump_def)
  show ?thesis using 1 2 shared_author_node [of docs g name] by blast
qed

text \<open>
  A node A of weight 3 re-added once and twice, and the author of the two scenario
  documents.
\<close>

theorem merge_rule_and_shared_author_witness:
  "has [(''A'', hlNode ''A'')] ''A'' \<and>
   map_of (addNode ''A'' ''second'' ''PAPER'' 10 EmptyObject [(''A'', hlNode ''A'')]) ''A'' =
     Some ((hlNode ''A'')\<lparr>node_val := 4\<rparr>) \<and>
   map_of [(''A'', hlNode ''A'')] ''A'' = Some (hlNode ''A'') \<and>
   map_of (fold (\<lambda>(i, l, g, v, m). addNode i l g v m) mergeOps [(''A'', hlNode ''A'')]) ''A'' =
     Some ((hlNode ''A'')\<lparr>node_val := 5\<rparr>) \<and>
   buildGlobalGraph [doc1, doc2] = Inr exGraph \<and>
   list_all (\<lambda>d. list_all isAscii (authorsOf d)) [doc1, doc2] \<and>
   length (filter (\<lambda>d. ''K. Chen'' \<in> set (map trim (authorsOf d))) [doc1, doc2]) = 2 \<and>
   list_all (\<lambda>d. count_list (map trim (authorsOf d)) ''K. Chen'' \<le> 1) [doc1, doc2] \<and>
   (\<exists>a. filter (\<lambda>n. node_id n = ''author:K. Chen'') (kg_nodes exGraph) = [a] \<and>
        node_label a = ''K. Chen'' \<and> node_group a = ''AUTHOR'' \<and> node_val a = 6 \<and>
        node_metadata a = EmptyObject)"
proof -
  have h1: "has [(''A'', hlNode ''A'')] ''A''"
    by (simp add: has_def)
  have h2: "map_of [(''A'', hlNode ''A'')] ''A'' = Some (hlNode ''A'')"
    by simp
  have h3: "length (filter (\<lambda>d. ''K. Chen'' \<in> set (map trim (authorsOf d))) [doc1, doc2]) = 2"
    by (simp add: authorsOf_def doc1_def doc2_def scenarioDoc_def scenario_strings)
  have h4: "\<forall>d \<in> set [doc1, doc2]. count_list (map trim (authorsOf d)) ''K. Chen'' \<le> 1"
    by (simp add: authorsOf_def doc1_def doc2_def scenarioDoc_def scenario_strings)
  have h5: "list_all (\<lambda>d. list_all isAscii (authorsOf d)) [doc1, doc2]"
    by code_simp
  have v: "node_val (hlNode ''A'') = 3" "count_list (map fst mergeOps) ''A'' = 2"
    by (simp_all add: hlNode_def mergeOps_def)
  note t = merge_rule_and_shared_author
    [where nodes = "[(''A'', hlNode ''A'')]" and k = "''A''" and l = "''second''"
       and grp = "''PAPER''" and v = 10 and m = EmptyObject and n = "hlNode ''A''"
       and ops = mergeOps and docs = "[doc1, doc2]" and g = exGraph and name = "''K. Chen''"]
  show ?thesis
    using t h1 h2 h3 h4 h5 buildGlobalGraph_example
    by (simp add: v list_all_iff)
qed

text \<open>
  Two documents share the author "K. Chen", and the first lists the name twice (the second
  time with a trailing blank): the one AUTHOR node has weight 7.
\<close>

theorem shared_author_counterexample:
  "length (filter (\<lambda>d. ''K. Chen'' \<in> set (map trim (authorsOf d))) [dupAuthorDoc, doc2]) = 2 \<and>
   map_sum (\<lambda>e. e)
     (\<lambda>g. map (\<lambda>n. (node_id n, node_val n))
             (filter (\<lambda>n. node_group n = ''AUTHOR'') (kg_nodes g)))
     (buildGlobalGraph [dupAuthorDoc, doc2]) = Inr [(''author:K. Chen'', 7)]"
  by code_simp

subsection \<open>Truncation\<close>

lemma edgesOK_tail: "edgesOK (e # es) \<Longrightarrow> edgesOK es"
proof -
  assume a: "edgesOK (e # es)"
  have "length (filter (sameLink a b r) es) \<le> 1" for a b r
  proof -
    have "length (filter (sameLink a b r) es) \<le> length (filter (sameLink a b r) (e # es))"
      by simp
    also have "\<dots> \<le> 1" using a unfolding edgesOK_def by blast
    finally show ?thesis .
  qed
  moreover have "\<forall>x \<in> set es. edge_source x \<noteq> edge_target x"
    using a unfolding edgesOK_def by simp
  ultimately show ?thesis unfolding edgesOK_def by blast
qed

lemma edgesOK_distinct: "edgesOK es \<Longrightarrow> distinct es"
proof (induction es)
  case Nil
  then show ?case by simp
next
  case (Cons e es)
  have "length (filter (sameLink (edge_source e) (edge_target e) (edge_relation e)) (e # es)) \<le> 1"
    using Cons.prems unfolding edgesOK_def by blast
  then have "filter (sameLink (edge_source e) (edge_target e) (edge_relation e)) es = []"
    by (simp add: sameLink_def)
  then have "e \<notin> set es"
    by (auto simp: filter_empty_conv sameLink_def)
  then show ?case using Cons.IH [OF edgesOK_tail [OF Cons.prems]] by simp
qed

lemma entry_group:
  assumes "(k, n) \<in> set (fold applyNodeOp (allNodeOps docs) [])"
  shows "node_group n = idGroup k"
proof -
  from entry_fold_applyNodeOp [OF assms] obtain op where
    op: "op \<in> set (allNodeOps docs)" "fst op = k"
      "n = bump (int (count_list (map fst (allNodeOps docs)) k) - 1) (mkNode op)"
    by blast
  show ?thesis
    using allNodeOps_canonical [OF op(1)] op(2) by (simp add: op(3) node_group_bump)
qed

lemma count_nodes_by_group:
  "length (filter (\<lambda>n. node_group n = G) (kg_nodes (tracedGraph docs))) =
     card ({k. idGroup k = G} \<inter> set (map fst (allNodeOps docs)))"
proof -
  let ?ns = "fold applyNodeOp (allNodeOps docs) []"
  have "filter (\<lambda>n. node_group n = G) (map snd ?ns) =
        map snd (filter (\<lambda>kn. idGroup (fst kn) = G) ?ns)"
    unfolding filter_map
    by (rule arg_cong [where f = "map snd"], rule filter_cong) (auto simp: entry_group)
  then have "length (filter (\<lambda>n. node_group n = G) (map snd ?ns)) =
             length (filter (\<lambda>k. idGroup k = G) (map fst ?ns))"
    by (simp add: filter_map comp_def)
  also have "\<dots> = card ({k. idGroup k = G} \<inter> set (map fst ?ns))"
    by (rule distinct_length_filter) (rule distinct_fold_applyNodeOp, simp)
  finally show ?thesis
    using keys_fold_applyNodeOp [of "allNodeOps docs" "[]"] by (simp add: tracedGraph_def)
qed

lemma count_edges_by_relation:
  "length (filter (\<lambda>e. edge_relation e = R) (kg_edges (tracedGraph docs))) =
     card ({e. edge_relation e = R} \<inter> mkEdge ` set (allEdgeOps docs))"
proof -
  have "distinct (kg_edges (tracedGraph docs))"
    using edgesOK_tracedGraph by (rule edgesOK_distinct)
  then show ?thesis
    using distinct_length_filter [of "kg_edges (tracedGraph docs)" "\<lambda>e. edge_relation e = R"]
    by (simp add: edges_tracedGraph)
qed

lemma card_prefixed_keys:
  fixes F :: "string \<Rightarrow> 'a"
  assumes "distinct (map key xs)" and "inj F"
  shows "card ((\<lambda>x. F (p @ key x)) ` set xs) = length xs"
proof -
  have "inj (\<lambda>s. F (p @ s))"
    using assms(2) by (auto simp: inj_def)
  then have "card ((\<lambda>s. F (p @ s)) ` set (map key xs)) = card (set (map key xs))"
    by (intro card_image) (auto simp: inj_on_def inj_def)
  also have "\<dots> = length xs"
    using assms distinct_card [of "map key xs"] by simp
  finally show ?thesis by (simp add: image_image)
qed

lemma docNodeOps_id_set:
  "fst ` set (docNodeOps doc) =
     insert (paperId doc)
       (authorId ` set (authorsOf doc) \<union> instId ` set (instituteOf doc) \<union>
        conceptId ` set (conceptsOf doc) \<union> methodId ` set (methodsOf doc))"
proof -
  have "fst ` set (docNodeOps doc) = set (map fst (docNodeOps doc))" by simp
  then show ?thesis unfolding docNodeOps_ids by auto
qed

lemma concept_ids_of_doc:
  "{k. idGroup k = ''CONCEPT''} \<inter> fst ` set (docNodeOps doc) =
     conceptId ` set (conceptsOf doc)"
  unfolding docNodeOps_id_set
  by (auto simp: idGroup_def paperId_def authorId_def instId_def conceptId_def methodId_def)

lemma method_ids_of_doc:
  "{k. idGroup k = ''METHOD''} \<inter> fst ` set (docNodeOps doc) =
     methodId ` set (methodsOf doc)"
  unfolding docNodeOps_id_set
  by (auto simp: idGroup_def paperId_def authorId_def instId_def conceptId_def methodId_def)

lemma discusses_edges_of_doc:
  "{e. edge_relation e = ''discusses''} \<inter> mkEdge ` set (docEdgeOps doc) =
     (\<lambda>c. mkEdge (paperId doc, conceptId c, ''discusses'')) ` set (conceptsOf doc)"
  by (auto simp: docEdgeOps_def mkEdge_def image_Un image_image)

lemma uses_method_edges_of_doc:
  "{e. edge_relation e = ''uses_method''} \<inter> mkEdge ` set (docEdgeOps doc) =
     (\<lambda>m. mkEdge (paperId doc, methodId m, ''uses_method'')) ` set (methodsOf doc)"
  by (auto simp: docEdgeOps_def mkEdge_def image_Un image_image)

lemma processDoc_truncated:
  "processDoc doc st =
     processDoc (doc\<lparr>doc_keyConcepts := map_option (take 5) (doc_keyConcepts doc),
                    doc_methods := map_option (take 3) (doc_methods doc)\<rparr>) st"
  by (simp add: processDoc_def Let_def split: option.splits)

lemma single_doc_concepts:
  assumes "doc_keyConcepts doc = Some cs" "5 \<le> length cs"
    "distinct (map (\<lambda>c. trim (toLowerCase c)) (take 5 cs))"
  shows "length (filter (\<lambda>n. node_group n = ''CONCEPT'') (kg_nodes (tracedGraph [doc]))) = 5 \<and>
         length (filter (\<lambda>e. edge_relation e = ''discusses'') (kg_edges (tracedGraph [doc]))) = 5"
proof -
  have c: "conceptsOf doc = take 5 cs" using assms(1) by (simp add: conceptsOf_def)
  have l: "length (take 5 cs) = 5" using assms(2) by simp
  have n: "card (conceptId ` set (take 5 cs)) = 5"
    using card_prefixed_keys [OF assms(3), of "\<lambda>s. s" "''concept:''"] l inj_on_id
    by (simp add: conceptId_def [abs_def])
  have "inj (\<lambda>k. mkEdge (paperId doc, k, ''discusses''))"
    by (auto simp: inj_def mkEdge_def)
  from card_prefixed_keys [OF assms(3) this, of "''concept:''"]
  have e: "card ((\<lambda>c. mkEdge (paperId doc, conceptId c, ''discusses'')) ` set (take 5 cs)) = 5"
    using l by (simp add: conceptId_def [abs_def])
  show ?thesis
    unfolding count_nodes_by_group count_edges_by_relation
    using n e by (simp add: allNodeOps_def allEdgeOps_def concept_ids_of_doc discusses_edges_of_doc c)
qed

lemma single_doc_methods:
  assumes "doc_methods doc = Some ms" "3 \<le> length ms"
    "distinct (map (\<lambda>m. trim (toLowerCase m)) (take 3 ms))"
  shows "length (filter (\<lambda>n. node_group n = ''METHOD'') (kg_nodes (tracedGraph [doc]))) = 3 \<and>
         length (filter (\<lambda>e. edge_relation e = ''uses_method'') (kg_edges (tracedGraph [doc]))) = 3"
proof -
  have c: "methodsOf doc = take 3 ms" using assms(1) by (simp add: methodsOf_def)
  have l: "length (take 3 ms) = 3" using assms(2) by simp
  have n: "card (methodId ` set (take 3 ms)) = 3"
    using card_prefixed_keys [OF assms(3), of "\<lambda>s. s" "''method:''"] l inj_on_id
    by (simp add: methodId_def [abs_def])
  have "inj (\<lambda>k. mkEdge (paperId doc, k, ''uses_method''))"
    by (auto simp: inj_def mkEdge_def)
  from card_prefixed_keys [OF assms(3) this, of "''method:''"]
  have e: "card ((\<lambda>m. mkEdge (paperId doc, methodId m, ''uses_method'')) ` set (take 3 ms)) = 3"
    using l by (simp add: methodId_def [abs_def])
  show ?thesis
    unfolding count_nodes_by_group count_edges_by_relation
    using n e by (simp add: allNodeOps_def allEdgeOps_def method_ids_of_doc uses_method_edges_of_doc c)
qed

text \<open>
  C6 (amended). For every document, processing it is the same as processing the document
  cut to its first 5 key concepts and first 3 methods, in their input order. In the graph
  built from one document with at least 5 key concepts whose first 5 are ASCII strings,
  pairwise different after lower-casing and trimming, there are exactly 5 CONCEPT nodes
  and exactly 5 discusses edges; with at least 3 methods whose first 3 are ASCII strings,
  pairwise different after lower-casing and trimming, there are exactly 3 METHOD nodes and
  3 uses_method edges.
\<close>

theorem truncation:
  "processDoc doc st =
     processDoc (doc\<lparr>doc_keyConcepts := map_option (take 5) (doc_keyConcepts doc),
                    doc_methods := map_option (take 3) (doc_methods doc)\<rparr>) st \<and>
   (buildGlobalGraph [doc] = Inr g \<longrightarrow>
      (\<forall>cs. doc_keyConcepts doc = Some cs \<and> 5 \<le> length cs \<and>
            (\<forall>c \<in> set (take 5 cs). isAscii c) \<and>
            distinct (map (\<lambda>c. trim (toLowerCase c)) (take 5 cs)) \<longrightarrow>
         length (filter (\<lambda>n. node_group n = ''CONCEPT'') (kg_nodes g)) = 5 \<and>
         length (filter (\<lambda>e. edge_relation e = ''discusses'') (kg_edges g)) = 5) \<and>
      (\<forall>ms. doc_methods doc = Some ms \<and> 3 \<le> length ms \<and>
            (\<forall>m \<in> set (take 3 ms). isAscii m) \<and>
            distinct (map (\<lambda>m. trim (toLowerCase m)) (take 3 ms)) \<longrightarrow>
         length (filter (\<lambda>n. node_group n = ''METHOD'') (kg_nodes g)) = 3 \<and>
         length (filter (\<lambda>e. edge_relation e = ''uses_method'') (kg_edges g)) = 3))"
proof -
  have "g = tracedGraph [doc]" if "buildGlobalGraph [doc] = Inr g"
    using that by (simp add: buildGlobalGraph_Inr)
  then show ?thesis
    using processDoc_truncated [of doc st] single_doc_concepts [of doc] single_doc_methods [of doc]
    by blast
qed

text \<open>The document with 8 key concepts and 5 methods.\<close>

theorem truncation_witness:
  "list_all isAscii (take 5 [''c1'', ''c2'', ''c3'', ''c4'', ''c5'', ''c6'', ''c7'', ''c8'']) \<and>
   list_all isAscii (take 3 [''m1'', ''m2'', ''m3'', ''m4'', ''m5'']) \<and>
   (\<exists>g. buildGlobalGraph [eightConceptsDoc] = Inr g \<and>
        length (filter (\<lambda>n. node_group n = ''CONCEPT'') (kg_nodes g)) = 5 \<and>
        length (filter (\<lambda>e. edge_relation e = ''discusses'') (kg_edges g)) = 5 \<and>
        length (filter (\<lambda>n. node_group n = ''METHOD'') (kg_nodes g)) = 3 \<and>
        length (filter (\<lambda>e. edge_relation e = ''uses_method'') (kg_edges g)) = 3) \<and>
   map_option length (doc_keyConcepts eightConceptsDoc) = Some 8 \<and>
   map_option length (doc_methods eightConceptsDoc) = Some 5"
proof -
  obtain g where g: "buildGlobalGraph [eightConceptsDoc] = Inr g"
    by (simp add: buildGlobalGraph_trace wellFormed_def eightConceptsDoc_def sparseDoc_def)
  have c: "doc_keyConcepts eightConceptsDoc =
             Some [''c1'', ''c2'', ''c3'', ''c4'', ''c5'', ''c6'', ''c7'', ''c8''] \<and>
           5 \<le> length [''c1'', ''c2'', ''c3'', ''c4'', ''c5'', ''c6'', ''c7'', ''c8''] \<and>
           list_all isAscii (take 5 [''c1'', ''c2'', ''c3'', ''c4'', ''c5'', ''c6'', ''c7'', ''c8'']) \<and>
           distinct (map (\<lambda>c. trim (toLowerCase c))
             (take 5 [''c1'', ''c2'', ''c3'', ''c4'', ''c5'', ''c6'', ''c7'', ''c8'']))"
    by code_simp
  have m: "doc_methods eightConceptsDoc = Some [''m1'', ''m2'', ''m3'', ''m4'', ''m5''] \<and>
           3 \<le> length [''m1'', ''m2'', ''m3'', ''m4'', ''m5''] \<and>
           list_all isAscii (take 3 [''m1'', ''m2'', ''m3'', ''m4'', ''m5'']) \<and>
           distinct (map (\<lambda>m. trim (toLowerCase m)) (take 3 [''m1'', ''m2'', ''m3'', ''m4'', ''m5'']))"
    by code_simp
  have l: "map_option length (doc_keyConcepts eightConceptsDoc) = Some 8 \<and>
           map_option length (doc_methods eightConceptsDoc) = Some 5"
    by (simp add: eightConceptsDoc_def)
  note t = truncation [of eightConceptsDoc "([], [])" g]
  show ?thesis using t g c m l unfolding list_all_iff by blast
qed

text \<open>
  A document with 8 different key concept strings whose first five are "GNN", "gnn", "ML",
  "AI", "NLP": the first two share the key "gnn", so the graph has 4 CONCEPT nodes and 4
  discusses edges.
\<close>

theorem truncation_counterexample:
  "map_option length (doc_keyConcepts repeatedConceptDoc) = Some 8 \<and>
   map_option distinct (doc_keyConcepts repeatedConceptDoc) = Some True \<and>
   map_sum (\<lambda>e. e)
     (\<lambda>g. (length (filter (\<lambda>n. node_group n = ''CONCEPT'') (kg_nodes g)),
           length (filter (\<lambda>e. edge_relation e = ''discusses'') (kg_edges g))))
     (buildGlobalGraph [repeatedConceptDoc]) = Inr (4, 4)"
  by code_simp

end
